theory Spec2Isabelle
  imports Complex_Main "HOL-Library.Sublist"
begin

section \<open>JavaScript values\<close>

text \<open>
  The validation engine (\<^verbatim>\<open>lib/validation-engine.ts\<close>) works on records of type
  \<^verbatim>\<open>any\<close>: plain objects whose fields hold strings, numbers, booleans, arrays or
  nested objects, as the spreadsheet parser produces them.

  Numbers are exact rationals extended with \<open>NaN\<close> and the two infinities; the
  rounding of IEEE doubles and the sign of zero are not modelled. A string is
  a sequence of code units below 256 (the Latin-1 part of Unicode), one
  \<open>char\<close> each; white space and letter case are those of JavaScript on that
  range. An object has the fields of its association list, an array its
  elements and its \<^verbatim>\<open>length\<close>, a string its characters and its \<^verbatim>\<open>length\<close>;
  the methods inherited from a prototype are functions, which \<open>jsval\<close> does
  not have.
\<close>

datatype jsnum = Fin rat | NaN | PosInf | NegInf

datatype jsval =
    Undefined
  | Null
  | Bool bool
  | Num jsnum
  | Str string
  | Arr "jsval list"
  | Obj "(string \<times> jsval) list"

type_synonym jsrecord = "(string \<times> jsval) list"

datatype js_error = TypeError | RangeError | ModuleNotFound

subsection \<open>Numbers\<close>

fun js_isFinite :: "jsnum \<Rightarrow> bool" where
  "js_isFinite (Fin x) = True"
| "js_isFinite NaN = False"
| "js_isFinite PosInf = False"
| "js_isFinite NegInf = False"

text \<open>The relational operators; every comparison with \<open>NaN\<close> is false.\<close>

fun js_lt :: "jsnum \<Rightarrow> jsnum \<Rightarrow> bool" where
  "js_lt NaN b = False"
| "js_lt a NaN = False"
| "js_lt (Fin x) (Fin y) = (x < y)"
| "js_lt (Fin x) PosInf = True"
| "js_lt (Fin x) NegInf = False"
| "js_lt PosInf b = False"
| "js_lt NegInf (Fin y) = True"
| "js_lt NegInf PosInf = True"
| "js_lt NegInf NegInf = False"

fun js_le :: "jsnum \<Rightarrow> jsnum \<Rightarrow> bool" where
  "js_le NaN b = False"
| "js_le a NaN = False"
| "js_le a b = (a = b \<or> js_lt a b)"

definition js_gt :: "jsnum \<Rightarrow> jsnum \<Rightarrow> bool" where
  "js_gt a b = js_lt b a"

definition js_ge :: "jsnum \<Rightarrow> jsnum \<Rightarrow> bool" where
  "js_ge a b = js_le b a"

fun js_neg :: "jsnum \<Rightarrow> jsnum" where
  "js_neg (Fin x) = Fin (- x)"
| "js_neg NaN = NaN"
| "js_neg PosInf = NegInf"
| "js_neg NegInf = PosInf"

fun js_add :: "jsnum \<Rightarrow> jsnum \<Rightarrow> jsnum" where
  "js_add NaN b = NaN"
| "js_add a NaN = NaN"
| "js_add (Fin x) (Fin y) = Fin (x + y)"
| "js_add (Fin x) b = b"
| "js_add a (Fin y) = a"
| "js_add a b = (if a = b then a else NaN)"

definition js_sub :: "jsnum \<Rightarrow> jsnum \<Rightarrow> jsnum" where
  "js_sub a b = js_add a (js_neg b)"

fun js_sign :: "jsnum \<Rightarrow> rat" where
  "js_sign (Fin x) = sgn x"
| "js_sign NaN = 0"
| "js_sign PosInf = 1"
| "js_sign NegInf = - 1"

fun js_mul :: "jsnum \<Rightarrow> jsnum \<Rightarrow> jsnum" where
  "js_mul NaN b = NaN"
| "js_mul a NaN = NaN"
| "js_mul (Fin x) (Fin y) = Fin (x * y)"
| "js_mul a b =
     (let s = js_sign a * js_sign b
      in if s = 0 then NaN else if 0 < s then PosInf else NegInf)"

fun js_div :: "jsnum \<Rightarrow> jsnum \<Rightarrow> jsnum" where
  "js_div NaN b = NaN"
| "js_div a NaN = NaN"
| "js_div (Fin x) (Fin y) =
     (if y = 0 then (if x = 0 then NaN else if 0 < x then PosInf else NegInf)
      else Fin (x / y))"
| "js_div (Fin x) b = Fin 0"
| "js_div a (Fin y) =
     (if 0 \<le> js_sign a * (if y < 0 then - 1 else 1) then PosInf else NegInf)"
| "js_div a b = NaN"

text \<open>\<^verbatim>\<open>Math.round\<close> rounds to the nearest integer, a tie towards \<open>+\<infinity>\<close>.\<close>

fun js_round :: "jsnum \<Rightarrow> jsnum" where
  "js_round (Fin x) = Fin (of_int \<lfloor>x + 1 / 2\<rfloor>)"
| "js_round a = a"

text \<open>\<^verbatim>\<open>Math.min\<close> and \<^verbatim>\<open>Math.max\<close> of two arguments: \<open>NaN\<close> if either is.\<close>

definition js_min :: "jsnum \<Rightarrow> jsnum \<Rightarrow> jsnum" where
  "js_min a b = (if a = NaN \<or> b = NaN then NaN else if js_lt b a then b else a)"

definition js_max :: "jsnum \<Rightarrow> jsnum \<Rightarrow> jsnum" where
  "js_max a b = (if a = NaN \<or> b = NaN then NaN else if js_lt a b then b else a)"

definition num_of_nat :: "nat \<Rightarrow> jsnum" where
  "num_of_nat n = Fin (of_nat n)"

subsection \<open>Truthiness, nullish values, property reads\<close>

fun truthy :: "jsval \<Rightarrow> bool" where
  "truthy Undefined = False"
| "truthy Null = False"
| "truthy (Bool b) = b"
| "truthy (Num n) = (n \<noteq> NaN \<and> n \<noteq> Fin 0)"
| "truthy (Str s) = (s \<noteq> [])"
| "truthy (Arr xs) = True"
| "truthy (Obj kvs) = True"

fun nullish :: "jsval \<Rightarrow> bool" where
  "nullish Undefined = True"
| "nullish Null = True"
| "nullish v = False"

text \<open>\<^verbatim>\<open>a ?? b\<close> and \<^verbatim>\<open>a || b\<close>.\<close>

definition coalesce :: "jsval \<Rightarrow> jsval \<Rightarrow> jsval" where
  "coalesce a b = (if nullish a then b else a)"

definition js_or :: "jsval \<Rightarrow> jsval \<Rightarrow> jsval" where
  "js_or a b = (if truthy a then a else b)"

text \<open>\<^verbatim>\<open>record.key\<close> on a record of the batch: a missing field reads \<^verbatim>\<open>undefined\<close>.\<close>

definition field_of :: "jsrecord \<Rightarrow> string \<Rightarrow> jsval" where
  "field_of r k = (case map_of r k of None \<Rightarrow> Undefined | Some v \<Rightarrow> v)"

text \<open>
  The array index that a property key denotes: a decimal numeral in canonical
  form (no sign, no leading zero).
\<close>

definition is_digit :: "char \<Rightarrow> bool" where
  "is_digit c \<longleftrightarrow> c \<in> set ''0123456789''"

definition digit_value :: "char \<Rightarrow> nat" where
  "digit_value c =
     (case map_of (zip ''0123456789'' [0, 1, 2, 3, 4, 5, 6, 7, 8, 9]) c of
        None \<Rightarrow> 0 | Some d \<Rightarrow> d)"

definition decimal_value :: "string \<Rightarrow> nat" where
  "decimal_value s = foldl (\<lambda>n c. 10 * n + digit_value c) 0 s"

definition array_index :: "string \<Rightarrow> nat option" where
  "array_index k =
     (if k \<noteq> [] \<and> list_all is_digit k \<and> (k = ''0'' \<or> hd k \<noteq> CHR ''0'')
      then Some (decimal_value k) else None)"

text \<open>\<^verbatim>\<open>xs[key]\<close> on an array and \<^verbatim>\<open>s[key]\<close> on a string.\<close>

definition array_prop :: "jsval list \<Rightarrow> string \<Rightarrow> jsval" where
  "array_prop xs k =
     (if k = ''length'' then Num (num_of_nat (length xs))
      else (case array_index k of
              None \<Rightarrow> Undefined
            | Some n \<Rightarrow> if n < length xs then xs ! n else Undefined))"

definition string_prop :: "string \<Rightarrow> string \<Rightarrow> jsval" where
  "string_prop s k =
     (if k = ''length'' then Num (num_of_nat (length s))
      else (case array_index k of
              None \<Rightarrow> Undefined
            | Some n \<Rightarrow> if n < length s then Str [s ! n] else Undefined))"

text \<open>
  \<^verbatim>\<open>v.key\<close> and \<^verbatim>\<open>v[key]\<close> on an arbitrary value, as the engine applies them
  to the entries of the registry and to the values met along a dotted field
  path: reading a property of \<^verbatim>\<open>null\<close> or \<^verbatim>\<open>undefined\<close> throws a TypeError; a
  number or a boolean has no property of its own.
\<close>

fun get_prop :: "jsval \<Rightarrow> string \<Rightarrow> js_error + jsval" where
  "get_prop Undefined k = Inl TypeError"
| "get_prop Null k = Inl TypeError"
| "get_prop (Obj r) k = Inr (field_of r k)"
| "get_prop (Arr xs) k = Inr (array_prop xs k)"
| "get_prop (Str s) k = Inr (string_prop s k)"
| "get_prop (Bool b) k = Inr Undefined"
| "get_prop (Num n) k = Inr Undefined"

text \<open>\<^verbatim>\<open>v?.[key]\<close>: optional chaining reads \<^verbatim>\<open>undefined\<close> where \<open>get_prop\<close> throws.\<close>

definition opt_prop :: "jsval \<Rightarrow> string \<Rightarrow> jsval" where
  "opt_prop v k = (case get_prop v k of Inl e \<Rightarrow> Undefined | Inr x \<Rightarrow> x)"

subsection \<open>Strings\<close>

text \<open>
  The white space that regular expressions and \<^verbatim>\<open>trim()\<close> recognise below 256:
  tab, line feed, vertical tab, form feed, carriage return, space and the
  no-break space.
\<close>

definition is_space :: "char \<Rightarrow> bool" where
  "is_space c \<longleftrightarrow>
     c = CHR '' '' \<or> c = CHR 0x09 \<or> c = CHR 0x0A \<or> c = CHR 0x0B \<or> c = CHR 0x0C \<or> c = CHR 0x0D
     \<or> c = CHR 0xA0"

definition js_trim :: "string \<Rightarrow> string" where
  "js_trim s = rev (dropWhile is_space (rev (dropWhile is_space s)))"

text \<open>
  \<^verbatim>\<open>toLowerCase()\<close> below 256: the letters A to Z, and the Latin-1 capitals
  0xC0 to 0xDE without the multiplication sign 0xD7, each 32 below its small
  letter.
\<close>

definition latin1_capitals :: "char list" where
  "latin1_capitals =
     [CHR 0xC0, CHR 0xC1, CHR 0xC2, CHR 0xC3, CHR 0xC4, CHR 0xC5, CHR 0xC6, CHR 0xC7,
      CHR 0xC8, CHR 0xC9, CHR 0xCA, CHR 0xCB, CHR 0xCC, CHR 0xCD, CHR 0xCE, CHR 0xCF,
      CHR 0xD0, CHR 0xD1, CHR 0xD2, CHR 0xD3, CHR 0xD4, CHR 0xD5, CHR 0xD6,
      CHR 0xD8, CHR 0xD9, CHR 0xDA, CHR 0xDB, CHR 0xDC, CHR 0xDD, CHR 0xDE]"

definition latin1_smalls :: "char list" where
  "latin1_smalls =
     [CHR 0xE0, CHR 0xE1, CHR 0xE2, CHR 0xE3, CHR 0xE4, CHR 0xE5, CHR 0xE6, CHR 0xE7,
      CHR 0xE8, CHR 0xE9, CHR 0xEA, CHR 0xEB, CHR 0xEC, CHR 0xED, CHR 0xEE, CHR 0xEF,
      CHR 0xF0, CHR 0xF1, CHR 0xF2, CHR 0xF3, CHR 0xF4, CHR 0xF5, CHR 0xF6,
      CHR 0xF8, CHR 0xF9, CHR 0xFA, CHR 0xFB, CHR 0xFC, CHR 0xFD, CHR 0xFE]"

definition lower_char :: "char \<Rightarrow> char" where
  "lower_char c =
     (case map_of (zip (''ABCDEFGHIJKLMNOPQRSTUVWXYZ'' @ latin1_capitals)
                       (''abcdefghijklmnopqrstuvwxyz'' @ latin1_smalls)) c of
        None \<Rightarrow> c | Some d \<Rightarrow> d)"

definition toLowerCase :: "string \<Rightarrow> string" where
  "toLowerCase s = map lower_char s"

definition startsWith :: "string \<Rightarrow> string \<Rightarrow> bool" where
  "startsWith s p = (take (length p) s = p)"

definition endsWith :: "string \<Rightarrow> string \<Rightarrow> bool" where
  "endsWith s p = (drop (length s - length p) s = p \<and> length p \<le> length s)"

text \<open>\<^verbatim>\<open>xs.join(sep)\<close> on strings.\<close>

fun js_join :: "string \<Rightarrow> string list \<Rightarrow> string" where
  "js_join sep [] = []"
| "js_join sep [x] = x"
| "js_join sep (x # y # ys) = x @ sep @ js_join sep (y # ys)"

text \<open>
  \<^verbatim>\<open>s.split(/\s*,\s*/)\<close>. At each position the separator is tried: optional
  white space, a comma, optional white space. \<open>match_sep\<close> gives the rest of the
  text after a separator that starts at the head of its argument.
\<close>

definition match_sep :: "string \<Rightarrow> string option" where
  "match_sep s =
     (case dropWhile is_space s of
        [] \<Rightarrow> None
      | c # cs \<Rightarrow> if c = CHR '','' then Some (dropWhile is_space cs) else None)"

function split_commas_from :: "string \<Rightarrow> string \<Rightarrow> string list" where
  "split_commas_from tok [] = [rev tok]"
| "split_commas_from tok (c # cs) =
     (case match_sep (c # cs) of
        Some rest \<Rightarrow> rev tok # split_commas_from [] rest
      | None \<Rightarrow> split_commas_from (c # tok) cs)"
  by pat_completeness auto
termination
proof (relation "measure (\<lambda>(tok, s). length s)")
  show "wf (measure (\<lambda>(tok, s). length s))" by simp
next
  fix tok :: string and c cs r
  assume a: "match_sep (c # cs) = Some r"
  obtain d ds where d: "dropWhile is_space (c # cs) = d # ds" and r: "r = dropWhile is_space ds"
    using a by (auto simp: match_sep_def split: list.splits if_splits)
  have "length r \<le> length ds"
    unfolding r by (rule length_dropWhile_le)
  moreover have "length (d # ds) \<le> length (c # cs)"
    unfolding d [symmetric] by (rule length_dropWhile_le)
  ultimately show "(([], r), (tok, c # cs)) \<in> measure (\<lambda>(tok, s). length s)"
    by simp
next
  fix tok :: string and c cs
  show "((c # tok, cs), (tok, c # cs)) \<in> measure (\<lambda>(tok, s). length s)"
    by simp
qed

definition split_commas :: "string \<Rightarrow> string list" where
  "split_commas s = split_commas_from [] s"

text \<open>Splitting at a character; \<^verbatim>\<open>s.split(".")\<close> for the dotted paths of rule fields.\<close>

fun split_char_from :: "char \<Rightarrow> string \<Rightarrow> string \<Rightarrow> string list" where
  "split_char_from sep tok [] = [rev tok]"
| "split_char_from sep tok (c # cs) =
     (if c = sep then rev tok # split_char_from sep [] cs
      else split_char_from sep (c # tok) cs)"

definition split_dots :: "string \<Rightarrow> string list" where
  "split_dots s = split_char_from (CHR ''.'') [] s"

text \<open>\<^verbatim>\<open>s.replace(/\[|\]/g, "")\<close> and \<^verbatim>\<open>s.replace(/^\"|\"$/g, "")\<close>.\<close>

definition remove_brackets :: "string \<Rightarrow> string" where
  "remove_brackets s = filter (\<lambda>c. c \<noteq> CHR ''['' \<and> c \<noteq> CHR '']'') s"

definition strip_quotes :: "string \<Rightarrow> string" where
  "strip_quotes s =
     (let s1 = (case s of [] \<Rightarrow> [] | c # cs \<Rightarrow> if c = CHR 0x22 then cs else s)
      in if s1 \<noteq> [] \<and> last s1 = CHR 0x22 then butlast s1 else s1)"

text \<open>
  \<^verbatim>\<open>trimmed.match(/^(\d+)\s*-\s*(\d+)$/)\<close>: the two digit groups of a range
  text. The three character classes are disjoint, so the greedy match never
  backtracks.
\<close>

definition range_match :: "string \<Rightarrow> (string \<times> string) option" where
  "range_match s =
     (let d1 = takeWhile is_digit s; r1 = dropWhile is_space (dropWhile is_digit s)
      in case r1 of
           [] \<Rightarrow> None
         | c # cs \<Rightarrow>
             (let r2 = dropWhile is_space cs; d2 = takeWhile is_digit r2
              in if c = CHR ''-'' \<and> d1 \<noteq> [] \<and> d2 \<noteq> [] \<and> dropWhile is_digit r2 = []
                 then Some (d1, d2) else None))"

section \<open>The host\<close>

text \<open>
  What the engine obtains from its JavaScript host and from outside the
  repository is taken as a parameter:
  \<^item> \<open>to_number\<close>: \<^verbatim>\<open>Number(s)\<close> on a string;
  \<^item> \<open>num_to_string\<close>: \<^verbatim>\<open>String(n)\<close> on a number;
  \<^item> \<open>json_parse_array\<close>: \<^verbatim>\<open>JSON.parse(s)\<close> on a text that starts with \<^verbatim>\<open>[\<close> and
    ends with \<^verbatim>\<open>]\<close>, which yields an array or throws (\<open>None\<close>);
  \<^item> \<open>run_condition\<close>: \<^verbatim>\<open>new Function("value", "record", "Array", "Date", `return ${condition}`)\<close>
    applied to the field value and the record; \<open>None\<close> when building or running
    the function throws. The first argument is the position of the record in
    the batch: a condition may read the clock through \<^verbatim>\<open>Date\<close>;
  \<^item> \<open>ai_reply\<close>: the three finding lists parsed from the language model's
    answer for a record; \<open>None\<close> when no API key is configured or the call or
    the parsing of its answer fails. The answer is taken in the shape the
    prompt asks for, three arrays of findings: \<open>validateRecord\<close> spreads the
    three fields outside any \<^verbatim>\<open>try\<close>, so on a field that is truthy and not
    iterable it throws a TypeError, which this type leaves out;
  \<^item> \<open>clock\<close>: the successive values of \<^verbatim>\<open>new Date().toISOString()\<close>.
\<close>

datatype DataType = Clients | Workers | Tasks

datatype Severity = SevError | SevWarning | SevInfo

record ValidationError =
  ve_field :: string
  ve_message :: string
  ve_severity :: Severity
  ve_suggestions :: "string list option"

record host =
  to_number :: "string \<Rightarrow> jsnum"
  num_to_string :: "jsnum \<Rightarrow> string"
  json_parse_array :: "string \<Rightarrow> jsval list option"
  run_condition :: "nat \<Rightarrow> string \<Rightarrow> jsval \<Rightarrow> jsrecord \<Rightarrow> jsval option"
  ai_reply :: "nat \<Rightarrow> jsrecord \<Rightarrow> DataType
                 \<Rightarrow> (ValidationError list \<times> ValidationError list \<times> ValidationError list) option"
  clock :: "nat \<Rightarrow> string"

subsection \<open>Conversions\<close>

text \<open>
  \<^verbatim>\<open>String(v)\<close>. An array joins its elements with a comma, \<^verbatim>\<open>null\<close> and
  \<^verbatim>\<open>undefined\<close> elements as the empty string.
\<close>

fun js_String :: "host \<Rightarrow> jsval \<Rightarrow> string" where
  "js_String h Undefined = ''undefined''"
| "js_String h Null = ''null''"
| "js_String h (Bool b) = (if b then ''true'' else ''false'')"
| "js_String h (Num n) = num_to_string h n"
| "js_String h (Str s) = s"
| "js_String h (Arr xs) =
     js_join '','' (map (\<lambda>x. if nullish x then [] else js_String h x) xs)"
| "js_String h (Obj kvs) = ''[object Object]''"

text \<open>\<^verbatim>\<open>Number(v)\<close>. An array or object is converted through its string.\<close>

fun js_Number :: "host \<Rightarrow> jsval \<Rightarrow> jsnum" where
  "js_Number h Undefined = NaN"
| "js_Number h Null = Fin 0"
| "js_Number h (Bool b) = (if b then Fin 1 else Fin 0)"
| "js_Number h (Num n) = n"
| "js_Number h (Str s) = to_number h s"
| "js_Number h v = to_number h (js_String h v)"

section \<open>List-parsing helpers\<close>

text \<open>
  \<^verbatim>\<open>Array.from({ length: b - a + 1 }, (_, i) => a + i)\<close>. The length is truncated
  to an integer; \<^verbatim>\<open>Array.from\<close> constructs the result with \<^verbatim>\<open>new Array(len)\<close>,
  which throws a RangeError when \<open>len\<close> exceeds \<open>2\<^sup>3\<^sup>2 - 1\<close>.
\<close>

definition max_array_length :: nat where
  "max_array_length = 2 ^ 32 - 1"

definition range_length :: "rat \<Rightarrow> rat \<Rightarrow> nat" where
  "range_length a b = nat \<lfloor>b - a + 1\<rfloor>"

definition array_from_range :: "rat \<Rightarrow> rat \<Rightarrow> js_error + jsnum list" where
  "array_from_range a b =
     (if max_array_length < range_length a b then Inl RangeError
      else Inr (map (\<lambda>i. Fin (a + of_nat i)) [0 ..< range_length a b]))"

text \<open>The comma-separated branch of \<open>parseNumberList\<close>.\<close>

definition comma_numbers :: "host \<Rightarrow> string \<Rightarrow> jsnum list" where
  "comma_numbers h trimmed =
     filter js_isFinite
       (map (to_number h)
          (filter (\<lambda>t. t \<noteq> []) (split_commas (remove_brackets trimmed))))"

text \<open>The range branch: \<open>None\<close> when the text is no range with \<open>a \<le> b\<close>.\<close>

definition range_numbers :: "host \<Rightarrow> string \<Rightarrow> (js_error + jsnum list) option" where
  "range_numbers h trimmed =
     (case range_match trimmed of
        None \<Rightarrow> None
      | Some (d1, d2) \<Rightarrow>
          (case (to_number h d1, to_number h d2) of
             (Fin a, Fin b) \<Rightarrow> if a \<le> b then Some (array_from_range a b) else None
           | _ \<Rightarrow> None))"

text \<open>
  \<open>parseNumberList\<close>. The recursive call on the parsed JSON text is the array
  branch, since \<open>json_parse_array\<close> yields the elements of an array.
\<close>

definition parseNumberList :: "host \<Rightarrow> jsval \<Rightarrow> js_error + jsnum list" where
  "parseNumberList h input =
     (case input of
        Arr xs \<Rightarrow> Inr (filter js_isFinite (map (js_Number h) xs))
      | Str s \<Rightarrow>
          (let trimmed = js_trim s;
               parsed = (if startsWith trimmed ''['' \<and> endsWith trimmed '']''
                         then json_parse_array h trimmed else None)
           in case parsed of
                Some arr \<Rightarrow> Inr (filter js_isFinite (map (js_Number h) arr))
              | None \<Rightarrow>
                  (case range_numbers h trimmed of
                     Some r \<Rightarrow> r
                   | None \<Rightarrow> Inr (comma_numbers h trimmed)))
      | _ \<Rightarrow> Inr [])"

definition parseStringList :: "host \<Rightarrow> jsval \<Rightarrow> string list" where
  "parseStringList h input =
     (case input of
        Arr xs \<Rightarrow> filter (\<lambda>t. t \<noteq> []) (map (\<lambda>s. js_trim (js_String h s)) xs)
      | Str s \<Rightarrow>
          filter (\<lambda>t. t \<noteq> []) (map (\<lambda>t. js_trim (strip_quotes t)) (split_commas s))
      | _ \<Rightarrow> [])"

section \<open>The rule catalog\<close>

datatype RuleType = Required | Format | Range | Custom | AI

record ValidationRule =
  rule_id :: string
  rule_name :: string
  rule_field :: string
  rule_type :: RuleType
  condition :: string
  rule_message :: string
  rule_severity :: Severity
  autoFix :: "bool option"
  fixSuggestion :: "string option"

text \<open>The engine's \<^verbatim>\<open>rules\<close> map; a kind without an entry has no rules.\<close>

type_synonym rule_table = "DataType \<Rightarrow> ValidationRule list"

definition addRule :: "DataType \<Rightarrow> ValidationRule \<Rightarrow> rule_table \<Rightarrow> rule_table" where
  "addRule dataType rule rules = rules (dataType := rules dataType @ [rule])"

fun remove_first :: "string \<Rightarrow> ValidationRule list \<Rightarrow> ValidationRule list" where
  "remove_first ruleId [] = []"
| "remove_first ruleId (r # rs) =
     (if rule_id r = ruleId then rs else r # remove_first ruleId rs)"

definition removeRule :: "DataType \<Rightarrow> string \<Rightarrow> rule_table \<Rightarrow> rule_table" where
  "removeRule dataType ruleId rules = rules (dataType := remove_first ruleId (rules dataType))"

definition getRules :: "rule_table \<Rightarrow> DataType \<Rightarrow> ValidationRule list" where
  "getRules rules dataType = rules dataType"

text \<open>The condition texts of the default rules.\<close>

definition cond_required :: string where
  \<open>cond_required = ''value != null && value.trim() != ""''\<close>

definition cond_priority_level :: string where
  "cond_priority_level = ''value >= 1 && value <= 5''"

definition cond_budget :: string where
  "cond_budget =
     ''value === undefined || (Number(value) >= 1000 && Number(value) <= 1000000)''"

definition cond_email :: string where
  "cond_email = ''/^[^'' @ [CHR 0x5C] @ ''s@]+@[^'' @ [CHR 0x5C] @ ''s@]+''
                 @ [CHR 0x5C] @ ''.[^'' @ [CHR 0x5C] @ ''s@]+$/.test(value)''"

definition cond_rate :: string where
  "cond_rate = ''value >= 15 && value <= 500''"

definition cond_skills :: string where
  "cond_skills = ''Array.isArray(value) && value.length > 0''"

definition cond_availability :: string where
  \<open>cond_availability = ''["available", "busy", "unavailable"].includes(value)''\<close>

definition cond_deadline :: string where
  "cond_deadline = ''new Date(value) > new Date()''"

definition cond_hours :: string where
  "cond_hours = ''value >= 1 && value <= 1000''"

definition cond_priority :: string where
  \<open>cond_priority = ''["urgent", "high", "medium", "low"].includes(value)''\<close>

definition mk_rule ::
  "string \<Rightarrow> string \<Rightarrow> string \<Rightarrow> RuleType \<Rightarrow> string \<Rightarrow> string \<Rightarrow> Severity \<Rightarrow> bool
     \<Rightarrow> string option \<Rightarrow> ValidationRule" where
  "mk_rule i n f t c m s a fx =
     \<lparr>rule_id = i, rule_name = n, rule_field = f, rule_type = t, condition = c,
      rule_message = m, rule_severity = s, autoFix = Some a, fixSuggestion = fx\<rparr>"

definition client_rules :: "ValidationRule list" where
  "client_rules =
     [mk_rule ''client-name-required'' ''Client Name Required'' ''ClientName'' Required
        cond_required ''Client name is required'' SevError False None,
      mk_rule ''client-id-required'' ''Client ID Required'' ''ClientID'' Required
        cond_required ''Client ID is required'' SevError False None,
      mk_rule ''client-priority-level-range'' ''Priority Level Range'' ''PriorityLevel'' Range
        cond_priority_level ''Priority level must be between 1 and 5'' SevError False None,
      mk_rule ''client-budget-range'' ''Budget Range Check'' ''budget'' Range
        cond_budget ''Budget should be between $1,000 and $1,000,000'' SevWarning False None]"

definition worker_rules :: "ValidationRule list" where
  "worker_rules =
     [mk_rule ''worker-name-required'' ''Worker Name Required'' ''name'' Required
        cond_required ''Worker name is required'' SevError False None,
      mk_rule ''worker-email-format'' ''Valid Email Format'' ''email'' Format
        cond_email ''Please provide a valid email address'' SevError True
        (Some ''Check email format (example@domain.com)''),
      mk_rule ''worker-rate-range'' ''Hourly Rate Range'' ''hourlyRate'' Range
        cond_rate ''Hourly rate should be between $15 and $500'' SevWarning False None,
      mk_rule ''worker-skills-required'' ''Skills Required'' ''skills'' Custom
        cond_skills ''At least one skill is required'' SevError False None,
      mk_rule ''worker-availability-valid'' ''Valid Availability Status'' ''availability'' Custom
        cond_availability ''Availability must be available, busy, or unavailable'' SevError True
        (Some ''Use: available, busy, or unavailable'')]"

definition task_rules :: "ValidationRule list" where
  "task_rules =
     [mk_rule ''task-title-required'' ''Task Title Required'' ''title'' Required
        cond_required ''Task title is required'' SevError False None,
      mk_rule ''task-deadline-future'' ''Future Deadline'' ''deadline'' Custom
        cond_deadline ''Deadline should be in the future'' SevWarning False None,
      mk_rule ''task-hours-range'' ''Estimated Hours Range'' ''estimatedHours'' Range
        cond_hours ''Estimated hours should be between 1 and 1000'' SevWarning False None,
      mk_rule ''task-priority-valid'' ''Valid Priority Level'' ''priority'' Custom
        cond_priority ''Priority must be urgent, high, medium, or low'' SevError True
        (Some ''Use: urgent, high, medium, or low'')]"

text \<open>\<open>initializeDefaultRules\<close>: the rules are added one by one to the empty map.\<close>

definition initializeDefaultRules :: rule_table where
  "initializeDefaultRules =
     fold (addRule Tasks) task_rules
       (fold (addRule Workers) worker_rules
          (fold (addRule Clients) client_rules (\<lambda>dataType. [])))"

section \<open>The record validator\<close>

record ValidationResult =
  isValid :: bool
  errors :: "ValidationError list"
  warnings :: "ValidationError list"
  suggestions :: "ValidationError list"
  score :: jsnum
  recordId :: jsval
  recordType :: DataType
  qualityScore :: jsnum
  validatedAt :: string

text \<open>
  \<open>getFieldValue\<close>: \<^verbatim>\<open>field.split(".").reduce((obj, key) => obj?.[key], record)\<close>.
\<close>

definition getFieldValue :: "jsrecord \<Rightarrow> string \<Rightarrow> jsval" where
  "getFieldValue record field = foldl opt_prop (Obj record) (split_dots field)"

text \<open>\<open>evaluateCondition\<close>: a condition that throws counts as satisfied.\<close>

definition evaluateCondition :: "host \<Rightarrow> nat \<Rightarrow> string \<Rightarrow> jsval \<Rightarrow> jsrecord \<Rightarrow> jsval" where
  "evaluateCondition h i cond val record =
     (case run_condition h i cond val record of
        Some v \<Rightarrow> v
      | None \<Rightarrow> Bool True)"

text \<open>
  \<open>performAIValidation\<close>: a missing API key and every failure of the call or of
  \<^verbatim>\<open>JSON.parse\<close> yield three empty lists; otherwise the three lists of the
  answer are returned as they are.
\<close>

definition performAIValidation ::
  "host \<Rightarrow> nat \<Rightarrow> jsrecord \<Rightarrow> DataType
     \<Rightarrow> ValidationError list \<times> ValidationError list \<times> ValidationError list" where
  "performAIValidation h i record dataType =
     (case ai_reply h i record dataType of
        Some r \<Rightarrow> r
      | None \<Rightarrow> ([], [], []))"

definition calculateQualityScore ::
  "jsrecord \<Rightarrow> ValidationError list \<Rightarrow> ValidationError list \<Rightarrow> ValidationError list \<Rightarrow> jsnum" where
  "calculateQualityScore record errs warns suggs =
     (let score0 = Fin 100;
          score1 = js_sub score0 (js_mul (num_of_nat (length errs)) (Fin 20));
          score2 = js_sub score1 (js_mul (num_of_nat (length warns)) (Fin 10));
          score3 = js_sub score2 (js_mul (num_of_nat (length suggs)) (Fin 5));
          fields = map fst record;
          nonEmptyFields =
            filter (\<lambda>field. let v = field_of record field
                            in v \<noteq> Null \<and> v \<noteq> Undefined \<and> v \<noteq> Str []) fields;
          completenessBonus =
            js_mul (js_div (num_of_nat (length nonEmptyFields)) (num_of_nat (length fields)))
              (Fin 10);
          score4 = js_add score3 completenessBonus
      in js_max (Fin 0) (js_min (Fin 100) (js_round score4)))"

text \<open>One turn of the loop over the rules, on the three lists of findings.\<close>

definition rule_finding :: "ValidationRule \<Rightarrow> ValidationError" where
  "rule_finding rule =
     \<lparr>ve_field = rule_field rule, ve_message = rule_message rule,
      ve_severity = rule_severity rule,
      ve_suggestions =
        (case fixSuggestion rule of
           None \<Rightarrow> None
         | Some s \<Rightarrow> if s = [] then None else Some [s])\<rparr>"

definition apply_rule ::
  "host \<Rightarrow> nat \<Rightarrow> jsrecord
     \<Rightarrow> ValidationError list \<times> ValidationError list \<times> ValidationError list
     \<Rightarrow> ValidationRule
     \<Rightarrow> ValidationError list \<times> ValidationError list \<times> ValidationError list" where
  "apply_rule h i record acc rule =
     (case acc of (errs, warns, suggs) \<Rightarrow>
        (let fieldValue = getFieldValue record (rule_field rule);
             ok = evaluateCondition h i (condition rule) fieldValue record
         in if truthy ok then (errs, warns, suggs)
            else if rule_severity rule = SevError then (errs @ [rule_finding rule], warns, suggs)
            else if rule_severity rule = SevWarning then (errs, warns @ [rule_finding rule], suggs)
            else (errs, warns, suggs @ [rule_finding rule])))"

text \<open>\<^verbatim>\<open>record.id || record._rowIndex?.toString()\<close>.\<close>

definition row_index_string :: "host \<Rightarrow> jsrecord \<Rightarrow> jsval" where
  "row_index_string h record =
     (let r = field_of record ''_rowIndex''
      in if nullish r then Undefined else Str (js_String h r))"

definition validateRecord ::
  "host \<Rightarrow> nat \<Rightarrow> rule_table \<Rightarrow> jsrecord \<Rightarrow> DataType \<Rightarrow> ValidationResult" where
  "validateRecord h i rules record dataType =
     (case foldl (apply_rule h i record) ([], [], []) (rules dataType) of
        (errs0, warns0, suggs0) \<Rightarrow>
          (case performAIValidation h i record dataType of
             (aiErrs, aiWarns, aiSuggs) \<Rightarrow>
               (let errs = errs0 @ aiErrs;
                    warns = warns0 @ aiWarns;
                    suggs = suggs0 @ aiSuggs;
                    sc = calculateQualityScore record errs warns suggs
                in \<lparr>isValid = (length errs = 0), errors = errs, warnings = warns,
                    suggestions = suggs, score = sc,
                    recordId = js_or (field_of record ''id'') (row_index_string h record),
                    recordType = dataType, qualityScore = sc,
                    validatedAt = clock h i\<rparr>)))"

section \<open>The registry\<close>

text \<open>
  The module \<^verbatim>\<open>data-context\<close>: three collections, each replaced as a whole.
  Entries are stored unchecked, so a collection may hold any value.
\<close>

record Registry =
  clients :: "jsval list"
  workers :: "jsval list"
  tasks :: "jsval list"

definition empty_registry :: Registry where
  "empty_registry = \<lparr>clients = [], workers = [], tasks = []\<rparr>"

fun setData :: "DataType \<Rightarrow> jsval list \<Rightarrow> Registry \<Rightarrow> Registry" where
  "setData Clients d reg = reg\<lparr>clients := d\<rparr>"
| "setData Workers d reg = reg\<lparr>workers := d\<rparr>"
| "setData Tasks d reg = reg\<lparr>tasks := d\<rparr>"

fun getData :: "Registry \<Rightarrow> DataType \<Rightarrow> jsval list" where
  "getData reg Clients = clients reg"
| "getData reg Workers = workers reg"
| "getData reg Tasks = tasks reg"

text \<open>
  The engine reaches the registry through \<^verbatim>\<open>require("./data-context")\<close>, inside
  a \<^verbatim>\<open>try\<close>. A data context is \<open>Some reg\<close> when the module loads and
  \<open>None\<close> when loading it throws.
\<close>

type_synonym data_context = "Registry option"

section \<open>The cross-record validator\<close>

type_synonym results = "ValidationResult list"

definition mk_finding :: "string \<Rightarrow> string \<Rightarrow> Severity \<Rightarrow> string list option \<Rightarrow> ValidationError" where
  "mk_finding f m s sg = \<lparr>ve_field = f, ve_message = m, ve_severity = s, ve_suggestions = sg\<rparr>"

text \<open>
  \<^verbatim>\<open>results[index].errors.push(e)\<close> and \<^verbatim>\<open>results[index].warnings.push(e)\<close>.
  The index is always a position of the batch, and \<open>results\<close> has one entry
  for each.
\<close>

definition push_error :: "nat \<Rightarrow> ValidationError \<Rightarrow> results \<Rightarrow> results" where
  "push_error index e rs = rs[index := (rs ! index)\<lparr>errors := errors (rs ! index) @ [e]\<rparr>]"

definition push_warning :: "nat \<Rightarrow> ValidationError \<Rightarrow> results \<Rightarrow> results" where
  "push_warning index e rs = rs[index := (rs ! index)\<lparr>warnings := warnings (rs ! index) @ [e]\<rparr>]"

text \<open>
  \<^verbatim>\<open>xs.forEach((x, index) => ...)\<close> on a state: \<open>forEach_idx\<close> for a body that
  cannot throw, \<open>tryEach_idx\<close> for one that can; it stops at the first
  exception and returns it with the state reached.
\<close>

fun forEach_idx :: "(nat \<Rightarrow> 'a \<Rightarrow> 's \<Rightarrow> 's) \<Rightarrow> nat \<Rightarrow> 'a list \<Rightarrow> 's \<Rightarrow> 's" where
  "forEach_idx f i [] s = s"
| "forEach_idx f i (x # xs) s = forEach_idx f (Suc i) xs (f i x s)"

fun tryEach_idx ::
  "(nat \<Rightarrow> 'a \<Rightarrow> 's \<Rightarrow> js_error + 's) \<Rightarrow> nat \<Rightarrow> 'a list \<Rightarrow> 's \<Rightarrow> js_error option \<times> 's" where
  "tryEach_idx f i [] s = (None, s)"
| "tryEach_idx f i (x # xs) s =
     (case f i x s of
        Inl e \<Rightarrow> (Some e, s)
      | Inr s' \<Rightarrow> tryEach_idx f (Suc i) xs s')"

text \<open>\<^verbatim>\<open>xs.map(f)\<close> and \<^verbatim>\<open>xs.filter(p)\<close> with a callback that can throw.\<close>

fun try_map :: "('a \<Rightarrow> js_error + 'b) \<Rightarrow> 'a list \<Rightarrow> js_error + 'b list" where
  "try_map f [] = Inr []"
| "try_map f (x # xs) =
     (case f x of
        Inl e \<Rightarrow> Inl e
      | Inr y \<Rightarrow> (case try_map f xs of Inl e \<Rightarrow> Inl e | Inr ys \<Rightarrow> Inr (y # ys)))"

fun try_filter :: "('a \<Rightarrow> js_error + bool) \<Rightarrow> 'a list \<Rightarrow> js_error + 'a list" where
  "try_filter p [] = Inr []"
| "try_filter p (x # xs) =
     (case p x of
        Inl e \<Rightarrow> Inl e
      | Inr b \<Rightarrow>
          (case try_filter p xs of
             Inl e \<Rightarrow> Inl e
           | Inr ys \<Rightarrow> Inr (if b then x # ys else ys)))"

text \<open>
  \<^verbatim>\<open>v.k1 ?? v.k2\<close>, \<^verbatim>\<open>v.k1 ?? v.k2 ?? d\<close> and \<^verbatim>\<open>v.k1 ?? v.k2 ?? v.k3 ?? d\<close> on an
  entry of the registry.
\<close>

definition props2 :: "jsval \<Rightarrow> string \<Rightarrow> string \<Rightarrow> js_error + jsval" where
  "props2 v k1 k2 =
     (case get_prop v k1 of
        Inl e \<Rightarrow> Inl e
      | Inr a \<Rightarrow> if nullish a then get_prop v k2 else Inr a)"

definition props2_or :: "jsval \<Rightarrow> string \<Rightarrow> string \<Rightarrow> jsval \<Rightarrow> js_error + jsval" where
  "props2_or v k1 k2 d =
     (case props2 v k1 k2 of
        Inl e \<Rightarrow> Inl e
      | Inr a \<Rightarrow> Inr (coalesce a d))"

definition props3_or :: "jsval \<Rightarrow> string \<Rightarrow> string \<Rightarrow> string \<Rightarrow> jsval \<Rightarrow> js_error + jsval" where
  "props3_or v k1 k2 k3 d =
     (case props2 v k1 k2 of
        Inl e \<Rightarrow> Inl e
      | Inr a \<Rightarrow>
          if nullish a
          then (case get_prop v k3 of Inl e \<Rightarrow> Inl e | Inr b \<Rightarrow> Inr (coalesce b d))
          else Inr a)"

subsection \<open>Duplicates\<close>

fun getKeyFields :: "DataType \<Rightarrow> string list" where
  "getKeyFields Clients = [''id'', ''ClientID'', ''email'', ''name'', ''ClientName'']"
| "getKeyFields Workers = [''id'', ''email'', ''name'']"
| "getKeyFields Tasks = [''id'', ''TaskID'', ''TaskName'']"

text \<open>The \<^verbatim>\<open>Map\<close> from key text to indices keeps the order of insertion.\<close>

definition note_value ::
  "host \<Rightarrow> string \<Rightarrow> nat \<Rightarrow> jsrecord \<Rightarrow> (string \<times> nat list) list \<Rightarrow> (string \<times> nat list) list" where
  "note_value h field index record valueMap =
     (let v = getFieldValue record field
      in if truthy v
         then (let key = js_trim (toLowerCase (js_String h v))
               in case map_of valueMap key of
                    None \<Rightarrow> valueMap @ [(key, [index])]
                  | Some old \<Rightarrow>
                      map (\<lambda>(k, idxs). if k = key then (k, idxs @ [index]) else (k, idxs)) valueMap)
         else valueMap)"

definition duplicate_message :: "string \<Rightarrow> string \<Rightarrow> string" where
  \<open>duplicate_message field v = ''Duplicate '' @ field @ '': "'' @ v @ ''" found in multiple records''\<close>

definition duplicates_of_field ::
  "host \<Rightarrow> jsrecord list \<Rightarrow> string \<Rightarrow> (nat list \<times> string \<times> string) list" where
  "duplicates_of_field h records field =
     (let valueMap = forEach_idx (note_value h field) 0 records []
      in map (\<lambda>(v, indices). (indices, field, duplicate_message field v))
           (filter (\<lambda>(v, indices). 1 < length indices) valueMap))"

definition findDuplicates ::
  "host \<Rightarrow> jsrecord list \<Rightarrow> DataType \<Rightarrow> (nat list \<times> string \<times> string) list" where
  "findDuplicates h records dataType =
     concat (map (duplicates_of_field h records) (getKeyFields dataType))"

definition mark_duplicate :: "nat list \<times> string \<times> string \<Rightarrow> results \<Rightarrow> results" where
  "mark_duplicate d rs =
     (case d of (indices, field, message) \<Rightarrow>
        fold (\<lambda>index. push_warning index
                (mk_finding field message SevWarning
                   (Some [''Review for potential duplicate entries''])))
          indices rs)"

subsection \<open>Checks on the batch alone\<close>

definition isValidClientReference :: "host \<Rightarrow> data_context \<Rightarrow> jsval \<Rightarrow> bool" where
  "isValidClientReference h ctx clientId =
     (case ctx of
        None \<Rightarrow> True
      | Some reg \<Rightarrow>
          list_ex
            (\<lambda>c. list_ex
                   (\<lambda>k. toLowerCase (js_String h (js_or (opt_prop c k) (Str [])))
                        = toLowerCase (js_String h clientId))
                   [''id'', ''ClientID'', ''clientId''])
            (getData reg Clients))"

definition client_reference_step ::
  "host \<Rightarrow> data_context \<Rightarrow> nat \<Rightarrow> jsrecord \<Rightarrow> results \<Rightarrow> results" where
  "client_reference_step h ctx index record rs =
     (let candidates =
            [field_of record ''clientId'', field_of record ''ClientID'',
             field_of record ''client_id''];
          ref = (case filter truthy candidates of [] \<Rightarrow> Undefined | v # vs \<Rightarrow> v)
      in if truthy ref \<and> \<not> isValidClientReference h ctx ref
         then push_error index
                (mk_finding ''clientId'' ''Referenced client does not exist'' SevError
                   (Some [''Verify client ID exists in clients data'']))
                rs
         else rs)"

definition duration_step :: "host \<Rightarrow> nat \<Rightarrow> jsrecord \<Rightarrow> results \<Rightarrow> results" where
  "duration_step h index record rs =
     (let duration =
            js_Number h
              (coalesce
                 (coalesce
                    (coalesce (field_of record ''Duration'') (field_of record ''duration''))
                    (field_of record ''estimatedHours''))
                 (field_of record ''estimated_hours''))
      in if \<not> js_isFinite duration \<or> js_lt duration (Fin 1)
         then push_error index
                (mk_finding ''Duration'' ''Duration must be a positive number (>= 1)'' SevError
                   (Some [''Set Duration to an integer >= 1'']))
                rs
         else rs)"

definition preferred_phases_step ::
  "host \<Rightarrow> nat \<Rightarrow> jsrecord \<Rightarrow> results \<Rightarrow> js_error + results" where
  "preferred_phases_step h index record rs =
     (let raw = coalesce (field_of record ''PreferredPhases'') (field_of record ''preferredPhases'')
      in if raw = Undefined then Inr rs
         else (case parseNumberList h raw of
                 Inl e \<Rightarrow> Inl e
               | Inr phases \<Rightarrow>
                   Inr (if phases = []
                        then push_error index
                               (mk_finding ''PreferredPhases''
                                  (''PreferredPhases must be a list/range like '' @ [CHR 0x27]
                                     @ ''1-3'' @ [CHR 0x27] @ '' or [2,4,5]'')
                                  SevError None)
                               rs
                        else rs)))"

definition available_slots_step ::
  "host \<Rightarrow> nat \<Rightarrow> jsrecord \<Rightarrow> results \<Rightarrow> js_error + results" where
  "available_slots_step h index record rs =
     (let raw = coalesce (field_of record ''AvailableSlots'') (field_of record ''availableSlots'')
      in if raw = Undefined then Inr rs
         else (case parseNumberList h raw of
                 Inl e \<Rightarrow> Inl e
               | Inr slots \<Rightarrow>
                   Inr (if slots = [] \<or> list_ex (\<lambda>n. \<not> js_isFinite n) slots
                        then push_error index
                               (mk_finding ''AvailableSlots''
                                  ''AvailableSlots must be an array of numbers (e.g., [1,3,5])''
                                  SevError None)
                               rs
                        else rs)))"

subsection \<open>Checks against the registry\<close>

text \<open>The skills of a registry worker: \<^verbatim>\<open>parseStringList(w.Skills ?? w.skills)\<close>.\<close>

definition worker_skills :: "host \<Rightarrow> jsval \<Rightarrow> js_error + string list" where
  "worker_skills h w =
     (case props2 w ''Skills'' ''skills'' of
        Inl e \<Rightarrow> Inl e
      | Inr v \<Rightarrow> Inr (parseStringList h v))"

definition required_skills :: "host \<Rightarrow> jsrecord \<Rightarrow> string list" where
  "required_skills h t =
     parseStringList h (coalesce (field_of t ''RequiredSkills'') (field_of t ''requiredSkills''))"

definition skill_step :: "host \<Rightarrow> string list \<Rightarrow> nat \<Rightarrow> jsrecord \<Rightarrow> results \<Rightarrow> results" where
  "skill_step h workerSkills idx t rs =
     (let skills = required_skills h t;
          missing = filter (\<lambda>s. toLowerCase s \<notin> set workerSkills) skills
      in if missing \<noteq> []
         then push_error idx
                (mk_finding ''RequiredSkills''
                   (''Missing worker coverage for skills: '' @ js_join '', '' missing) SevError
                   (Some [''Add workers with these skills or adjust task requirements'']))
                rs
         else rs)"

definition skill_coverage ::
  "host \<Rightarrow> jsval list \<Rightarrow> jsrecord list \<Rightarrow> results \<Rightarrow> js_error option \<times> results" where
  "skill_coverage h ws records rs =
     (case try_map (worker_skills h) ws of
        Inl e \<Rightarrow> (Some e, rs)
      | Inr sks \<Rightarrow>
          (None, forEach_idx (skill_step h (map toLowerCase (concat sks))) 0 records rs))"

definition is_qualified :: "host \<Rightarrow> string list \<Rightarrow> jsval \<Rightarrow> js_error + bool" where
  "is_qualified h skills w =
     (case worker_skills h w of
        Inl e \<Rightarrow> Inl e
      | Inr sk \<Rightarrow> Inr (list_all (\<lambda>s. s \<in> set (map toLowerCase sk)) skills))"

definition concurrency_step ::
  "host \<Rightarrow> jsval list \<Rightarrow> nat \<Rightarrow> jsrecord \<Rightarrow> results \<Rightarrow> js_error + results" where
  "concurrency_step h ws idx t rs =
     (let skills = map toLowerCase (required_skills h t);
          maxConc =
            js_Number h
              (coalesce (coalesce (field_of t ''MaxConcurrent'') (field_of t ''maxConcurrent''))
                 (Num (Fin 1)))
      in case try_filter (is_qualified h skills) ws of
           Inl e \<Rightarrow> Inl e
         | Inr q \<Rightarrow>
             (let qualified = length q
              in Inr (if js_isFinite maxConc \<and> js_gt maxConc (num_of_nat qualified)
                      then push_error idx
                             (mk_finding ''MaxConcurrent''
                                (''MaxConcurrent ('' @ num_to_string h maxConc
                                   @ '') exceeds number of qualified workers (''
                                   @ num_to_string h (num_of_nat qualified) @ '')'')
                                SevError
                                (Some [''Lower MaxConcurrent or add more qualified workers'']))
                             rs
                      else rs)))"

text \<open>
  The capacity object, keyed by phase number. \<^verbatim>\<open>capacity[p] || 0\<close> reads a
  missing or zero entry as \<open>0\<close>.
\<close>

type_synonym capacity = "jsnum \<Rightarrow> jsnum option"

definition capacity_at :: "capacity \<Rightarrow> jsnum \<Rightarrow> jsnum" where
  "capacity_at cap p =
     (case cap p of
        None \<Rightarrow> Fin 0
      | Some c \<Rightarrow> if truthy (Num c) then c else Fin 0)"

definition add_worker_capacity :: "host \<Rightarrow> capacity \<Rightarrow> jsval \<Rightarrow> js_error + capacity" where
  "add_worker_capacity h cap w =
     (case props2 w ''AvailableSlots'' ''availableSlots'' of
        Inl e \<Rightarrow> Inl e
      | Inr raw \<Rightarrow>
          (case parseNumberList h raw of
             Inl e \<Rightarrow> Inl e
           | Inr slots \<Rightarrow>
               (case props2_or w ''MaxLoadPerPhase'' ''maxLoadPerPhase'' (Num (Fin 1)) of
                  Inl e \<Rightarrow> Inl e
                | Inr m \<Rightarrow>
                    (let maxPerPhase = js_Number h m
                     in Inr (fold (\<lambda>p c. c (p \<mapsto> js_add (capacity_at c p)
                                               (if js_isFinite maxPerPhase then maxPerPhase
                                                else Fin 1)))
                               slots cap)))))"

fun build_capacity :: "host \<Rightarrow> capacity \<Rightarrow> jsval list \<Rightarrow> js_error + capacity" where
  "build_capacity h cap [] = Inr cap"
| "build_capacity h cap (w # ws) =
     (case add_worker_capacity h cap w of
        Inl e \<Rightarrow> Inl e
      | Inr cap' \<Rightarrow> build_capacity h cap' ws)"

definition phase_warning :: "host \<Rightarrow> jsnum \<Rightarrow> jsnum \<Rightarrow> jsnum \<Rightarrow> ValidationError" where
  "phase_warning h p duration cap =
     mk_finding ''PreferredPhases''
       (''Phase '' @ num_to_string h p @ '' demand ('' @ num_to_string h duration
          @ '') may exceed worker capacity ('' @ num_to_string h cap @ '')'')
       SevWarning (Some [''Adjust phases, increase capacity or reduce duration''])"

definition phase_step ::
  "host \<Rightarrow> capacity \<Rightarrow> nat \<Rightarrow> jsrecord \<Rightarrow> results \<Rightarrow> js_error + results" where
  "phase_step h cap idx t rs =
     (let duration =
            js_Number h
              (coalesce (coalesce (field_of t ''Duration'') (field_of t ''duration''))
                 (Num (Fin 1)))
      in case parseNumberList h
                (coalesce (field_of t ''PreferredPhases'') (field_of t ''preferredPhases'')) of
           Inl e \<Rightarrow> Inl e
         | Inr phases \<Rightarrow>
             Inr (if \<not> truthy (Num duration) \<or> phases = [] then rs
                  else fold (\<lambda>p r. if js_gt duration (capacity_at cap p)
                                    then push_warning idx
                                           (phase_warning h p duration (capacity_at cap p)) r
                                    else r)
                         phases rs))"

definition phase_saturation ::
  "host \<Rightarrow> jsval list \<Rightarrow> jsrecord list \<Rightarrow> results \<Rightarrow> js_error option \<times> results" where
  "phase_saturation h ws records rs =
     (case build_capacity h Map.empty ws of
        Inl e \<Rightarrow> (Some e, rs)
      | Inr cap \<Rightarrow> tryEach_idx (phase_step h cap) 0 records rs)"

text \<open>The identifier of a registry task: \<^verbatim>\<open>String(t.TaskID ?? t.id ?? t.title ?? "").toLowerCase()\<close>.\<close>

definition task_identifier :: "host \<Rightarrow> jsval \<Rightarrow> js_error + string" where
  "task_identifier h t =
     (case props3_or t ''TaskID'' ''id'' ''title'' (Str []) of
        Inl e \<Rightarrow> Inl e
      | Inr v \<Rightarrow> Inr (toLowerCase (js_String h v)))"

definition requested_task_ids :: "host \<Rightarrow> jsrecord \<Rightarrow> string list" where
  "requested_task_ids h c =
     parseStringList h
       (coalesce
          (coalesce (field_of c ''RequestedTaskIDs'') (field_of c ''requestedTasks''))
          (field_of c ''tasks''))"

definition unknown_task_ids :: "host \<Rightarrow> string list \<Rightarrow> jsrecord \<Rightarrow> string list" where
  "unknown_task_ids h taskIds c =
     filter (\<lambda>i. toLowerCase i \<notin> set taskIds) (requested_task_ids h c)"

definition unknown_tasks_finding :: "string list \<Rightarrow> ValidationError" where
  "unknown_tasks_finding unknown =
     mk_finding ''RequestedTaskIDs'' (''Unknown TaskIDs: '' @ js_join '', '' unknown) SevError
       (Some [''Correct TaskIDs or add missing tasks''])"

definition requested_tasks_step ::
  "host \<Rightarrow> string list \<Rightarrow> nat \<Rightarrow> jsrecord \<Rightarrow> results \<Rightarrow> results" where
  "requested_tasks_step h taskIds cIdx c rs =
     (let unknown = unknown_task_ids h taskIds c
      in if unknown \<noteq> [] then push_error cIdx (unknown_tasks_finding unknown) rs else rs)"

definition requested_tasks ::
  "host \<Rightarrow> jsval list \<Rightarrow> jsrecord list \<Rightarrow> results \<Rightarrow> js_error option \<times> results" where
  "requested_tasks h ts records rs =
     (case try_map (task_identifier h) ts of
        Inl e \<Rightarrow> (Some e, rs)
      | Inr ids \<Rightarrow>
          (None, forEach_idx (requested_tasks_step h (filter (\<lambda>i. i \<noteq> []) ids)) 0 records rs))"

text \<open>Sequencing inside the \<^verbatim>\<open>try\<close> block: an exception ends the block.\<close>

definition and_then ::
  "('s \<Rightarrow> js_error option \<times> 's) \<Rightarrow> ('s \<Rightarrow> js_error option \<times> 's) \<Rightarrow> 's \<Rightarrow> js_error option \<times> 's" where
  "and_then f g s = (case f s of (None, s') \<Rightarrow> g s' | (Some e, s') \<Rightarrow> (Some e, s'))"

definition when_do ::
  "bool \<Rightarrow> ('s \<Rightarrow> js_error option \<times> 's) \<Rightarrow> 's \<Rightarrow> js_error option \<times> 's" where
  "when_do b f s = (if b then f s else (None, s))"

definition registry_checks ::
  "host \<Rightarrow> data_context \<Rightarrow> jsrecord list \<Rightarrow> DataType \<Rightarrow> results \<Rightarrow> js_error option \<times> results" where
  "registry_checks h ctx records dataType rs =
     (case ctx of
        None \<Rightarrow> (Some ModuleNotFound, rs)
      | Some reg \<Rightarrow>
          (let ws = getData reg Workers;
               ts = getData reg Tasks;
               cs = getData reg Clients;
               forTasks = (ts \<noteq> [] \<and> ws \<noteq> [] \<and> dataType = Tasks)
           in and_then (when_do forTasks (skill_coverage h ws records))
                (and_then (when_do forTasks (tryEach_idx (concurrency_step h ws) 0 records))
                   (and_then (when_do forTasks (phase_saturation h ws records))
                      (when_do (cs \<noteq> [] \<and> ts \<noteq> [] \<and> dataType = Clients)
                         (requested_tasks h ts records))))
                rs))"

subsection \<open>The whole pass\<close>

definition initial_result :: "host \<Rightarrow> DataType \<Rightarrow> nat \<Rightarrow> nat \<Rightarrow> jsrecord \<Rightarrow> ValidationResult" where
  "initial_result h dataType n index record =
     \<lparr>isValid = True, errors = [], warnings = [], suggestions = [], score = Fin 100,
      recordId =
        js_or (js_or (field_of record ''id'') (row_index_string h record))
          (Str (num_to_string h (num_of_nat index))),
      recordType = dataType, qualityScore = Fin 100,
      validatedAt = clock h (n + index)\<rparr>"

text \<open>An exception outside the \<^verbatim>\<open>try\<close> block leaves the function.\<close>

definition throwing :: "js_error option \<times> 's \<Rightarrow> js_error + 's" where
  "throwing r = (case r of (None, s) \<Rightarrow> Inr s | (Some e, s) \<Rightarrow> Inl e)"

definition task_checks ::
  "host \<Rightarrow> data_context \<Rightarrow> jsrecord list \<Rightarrow> results \<Rightarrow> js_error + results" where
  "task_checks h ctx records rs =
     throwing
       (tryEach_idx (preferred_phases_step h) 0 records
          (forEach_idx (duration_step h) 0 records
             (forEach_idx (client_reference_step h ctx) 0 records rs)))"

definition worker_checks :: "host \<Rightarrow> jsrecord list \<Rightarrow> results \<Rightarrow> js_error + results" where
  "worker_checks h records rs = throwing (tryEach_idx (available_slots_step h) 0 records rs)"

definition initial_results :: "host \<Rightarrow> DataType \<Rightarrow> jsrecord list \<Rightarrow> results" where
  "initial_results h dataType records =
     map (\<lambda>(index, record). initial_result h dataType (length records) index record)
       (enumerate 0 records)"

definition cross_checks ::
  "host \<Rightarrow> data_context \<Rightarrow> jsrecord list \<Rightarrow> DataType \<Rightarrow> results \<Rightarrow> js_error + results" where
  "cross_checks h ctx records dataType rs0 =
     (let rs1 = fold mark_duplicate (findDuplicates h records dataType) rs0
      in case (if dataType = Tasks then task_checks h ctx records rs1 else Inr rs1) of
           Inl e \<Rightarrow> Inl e
         | Inr rs2 \<Rightarrow>
             (case (if dataType = Workers then worker_checks h records rs2 else Inr rs2) of
                Inl e \<Rightarrow> Inl e
              | Inr rs3 \<Rightarrow> Inr (snd (registry_checks h ctx records dataType rs3))))"

definition performCrossRecordValidation ::
  "host \<Rightarrow> data_context \<Rightarrow> jsrecord list \<Rightarrow> DataType \<Rightarrow> js_error + results" where
  "performCrossRecordValidation h ctx records dataType =
     cross_checks h ctx records dataType (initial_results h dataType records)"

section \<open>Batch validation\<close>

definition merge_step :: "nat \<Rightarrow> ValidationResult \<Rightarrow> results \<Rightarrow> results" where
  "merge_step index crossResult rs =
     (if index < length rs
      then rs[index := (rs ! index)
                \<lparr>errors := errors (rs ! index) @ errors crossResult,
                 warnings := warnings (rs ! index) @ warnings crossResult,
                 suggestions := suggestions (rs ! index) @ suggestions crossResult,
                 isValid := (isValid (rs ! index) \<and> isValid crossResult)\<rparr>]
      else rs)"

definition validateBatch ::
  "host \<Rightarrow> data_context \<Rightarrow> rule_table \<Rightarrow> jsrecord list \<Rightarrow> DataType \<Rightarrow> js_error + results" where
  "validateBatch h ctx rules records dataType =
     (let rs = map (\<lambda>(i, record). validateRecord h i rules record dataType) (enumerate 0 records)
      in case performCrossRecordValidation h ctx records dataType of
           Inl e \<Rightarrow> Inl e
         | Inr crossValidation \<Rightarrow> Inr (forEach_idx merge_step 0 crossValidation rs))"

section \<open>A reference host\<close>

text \<open>
  A concrete host, for running the engine on examples. It covers a part of
  JavaScript only, and the examples stay inside that part:
  \<^item> \<^verbatim>\<open>Number(s)\<close> for the empty text and for unsigned decimal integers; any
    other text reads as \<open>NaN\<close>, which is what JavaScript does unless the text is
    another numeric literal (a sign, a fraction, an exponent, a radix prefix,
    \<^verbatim>\<open>Infinity\<close>);
  \<^item> \<^verbatim>\<open>String(n)\<close> for \<open>NaN\<close>, the infinities and the integers below \<open>10\<^sup>2\<^sup>1\<close>
    in absolute value;
  \<^item> \<^verbatim>\<open>JSON.parse\<close> for arrays of unsigned integer literals; any other text is
    reported as a syntax error;
  \<^item> the conditions of the default rules; any other condition text is reported
    as a fault, as is the deadline condition on a value that needs date
    parsing (a string, an array or an object);
  \<^item> no API key, so no findings from the language model;
  \<^item> a clock that stands still at \<open>now\<close> milliseconds, printed as \<open>stamp\<close>.
\<close>

definition ref_to_number :: "string \<Rightarrow> jsnum" where
  "ref_to_number s =
     (let t = js_trim s
      in if t = [] then Fin 0
         else if list_all is_digit t then Fin (of_nat (decimal_value t))
         else NaN)"

definition digit_char :: "nat \<Rightarrow> char" where
  "digit_char d = ''0123456789'' ! d"

function digits_of :: "nat \<Rightarrow> string" where
  "digits_of n = (if n < 10 then [digit_char n] else digits_of (n div 10) @ [digit_char (n mod 10)])"
  by pat_completeness auto
termination
  by (relation "measure (\<lambda>n. n)") auto

declare digits_of.simps [simp del]

definition ref_num_to_string :: "jsnum \<Rightarrow> string" where
  "ref_num_to_string n =
     (case n of
        NaN \<Rightarrow> ''NaN''
      | PosInf \<Rightarrow> ''Infinity''
      | NegInf \<Rightarrow> ''-Infinity''
      | Fin x \<Rightarrow>
          (if x < 0 then ''-'' @ digits_of (nat (- \<lfloor>x\<rfloor>)) else digits_of (nat \<lfloor>x\<rfloor>)))"

definition json_space :: "char \<Rightarrow> bool" where
  "json_space c \<longleftrightarrow> c = CHR '' '' \<or> c = CHR 0x09 \<or> c = CHR 0x0A \<or> c = CHR 0x0D"

definition json_trim :: "string \<Rightarrow> string" where
  "json_trim s = rev (dropWhile json_space (rev (dropWhile json_space s)))"

definition is_json_nat :: "string \<Rightarrow> bool" where
  "is_json_nat t \<longleftrightarrow> t \<noteq> [] \<and> list_all is_digit t \<and> (t = ''0'' \<or> take 1 t \<noteq> ''0'')"

definition ref_json_parse_array :: "string \<Rightarrow> jsval list option" where
  "ref_json_parse_array s =
     (let inner = json_trim (butlast (tl s));
          toks = map json_trim (split_char_from (CHR '','') [] inner)
      in if inner = [] then Some []
         else if list_all is_json_nat toks
         then Some (map (\<lambda>t. Num (Fin (of_nat (decimal_value t)))) toks)
         else None)"

definition conv_host :: host where
  "conv_host =
     \<lparr>to_number = ref_to_number, num_to_string = ref_num_to_string,
      json_parse_array = ref_json_parse_array,
      run_condition = (\<lambda>i c v r. None), ai_reply = (\<lambda>i r d. None), clock = (\<lambda>i. [])\<rparr>"

definition in_range :: "rat \<Rightarrow> rat \<Rightarrow> jsval \<Rightarrow> jsval" where
  "in_range lo hi v =
     Bool (js_ge (js_Number conv_host v) (Fin lo) \<and> js_le (js_Number conv_host v) (Fin hi))"

text \<open>The regular expression of the e-mail rule, on the text of the value.\<close>

definition email_ok :: "string \<Rightarrow> bool" where
  "email_ok s =
     (let a = takeWhile (\<lambda>c. c \<noteq> CHR ''@'') s;
          d = drop (Suc (length a)) s
      in a \<noteq> [] \<and> length a < length s
         \<and> list_all (\<lambda>c. \<not> is_space c) s
         \<and> list_all (\<lambda>c. c \<noteq> CHR ''@'') d
         \<and> list_ex (\<lambda>c. c = CHR ''.'') (butlast (tl d)))"

text \<open>
  \<^verbatim>\<open>new Date(v) > new Date()\<close> for a value that is not parsed as a date text:
  the time value of \<^verbatim>\<open>new Date(n)\<close> is \<open>n\<close> truncated, or \<open>NaN\<close> beyond
  \<open>8.64 \<times> 10\<^sup>1\<^sup>5\<close> milliseconds.
\<close>

definition time_value :: "jsnum \<Rightarrow> jsnum" where
  "time_value n =
     (case n of
        Fin x \<Rightarrow>
          if \<bar>x\<bar> \<le> 8640000000000000
          then Fin (of_int (if 0 \<le> x then \<lfloor>x\<rfloor> else \<lceil>x\<rceil>))
          else NaN
      | _ \<Rightarrow> NaN)"

definition ref_condition :: "int \<Rightarrow> string \<Rightarrow> jsval \<Rightarrow> jsrecord \<Rightarrow> jsval option" where
  "ref_condition now cond v record =
     (if cond = cond_required then
        (case v of
           Undefined \<Rightarrow> Some (Bool False)
         | Null \<Rightarrow> Some (Bool False)
         | Str s \<Rightarrow> Some (Bool (js_trim s \<noteq> []))
         | _ \<Rightarrow> None)
      else if cond = cond_priority_level then Some (in_range 1 5 v)
      else if cond = cond_budget then
        (if v = Undefined then Some (Bool True) else Some (in_range 1000 1000000 v))
      else if cond = cond_email then Some (Bool (email_ok (js_String conv_host v)))
      else if cond = cond_rate then Some (in_range 15 500 v)
      else if cond = cond_skills then
        (case v of Arr xs \<Rightarrow> Some (Bool (xs \<noteq> [])) | _ \<Rightarrow> Some (Bool False))
      else if cond = cond_availability then
        Some (Bool (v \<in> set [Str ''available'', Str ''busy'', Str ''unavailable'']))
      else if cond = cond_deadline then
        (case v of
           Str s \<Rightarrow> None
         | Arr xs \<Rightarrow> None
         | Obj kvs \<Rightarrow> None
         | _ \<Rightarrow> Some (Bool (js_gt (time_value (js_Number conv_host v)) (Fin (of_int now)))))
      else if cond = cond_hours then Some (in_range 1 1000 v)
      else if cond = cond_priority then
        Some (Bool (v \<in> set [Str ''urgent'', Str ''high'', Str ''medium'', Str ''low'']))
      else None)"

definition ref_host :: "int \<Rightarrow> string \<Rightarrow> host" where
  "ref_host now stamp =
     conv_host\<lparr>run_condition := (\<lambda>i. ref_condition now), clock := (\<lambda>i. stamp)\<rparr>"

section \<open>Auxiliary notions for the proofs\<close>

text \<open>
  Every step of the cross-record pass changes the results only by appending a
  finding to the errors or the warnings of one position. A log of such pushes
  describes a step; \<open>replay\<close> applies a log.
\<close>

type_synonym push_log = "(nat \<times> bool \<times> ValidationError) list"

definition replay_step :: "nat \<times> bool \<times> ValidationError \<Rightarrow> results \<Rightarrow> results" where
  "replay_step p rs = (case p of (i, w, e) \<Rightarrow> if w then push_warning i e rs else push_error i e rs)"

definition replay :: "push_log \<Rightarrow> results \<Rightarrow> results" where
  "replay lg rs = fold replay_step lg rs"

definition log_errors :: "push_log \<Rightarrow> nat \<Rightarrow> ValidationError list" where
  "log_errors lg i = map (\<lambda>p. snd (snd p)) (filter (\<lambda>p. fst p = i \<and> \<not> fst (snd p)) lg)"

definition log_warnings :: "push_log \<Rightarrow> nat \<Rightarrow> ValidationError list" where
  "log_warnings lg i = map (\<lambda>p. snd (snd p)) (filter (\<lambda>p. fst p = i \<and> fst (snd p)) lg)"

definition pushes :: "(results \<Rightarrow> results) \<Rightarrow> bool" where
  "pushes F \<longleftrightarrow> (\<exists>lg. \<forall>rs. F rs = replay lg rs)"

definition try_pushes :: "(results \<Rightarrow> js_error option \<times> results) \<Rightarrow> bool" where
  "try_pushes F \<longleftrightarrow> (\<exists>eo lg. \<forall>rs. F rs = (eo, replay lg rs))"

definition sum_pushes :: "(results \<Rightarrow> js_error + results) \<Rightarrow> bool" where
  "sum_pushes F \<longleftrightarrow> (\<exists>e. \<forall>rs. F rs = Inl e) \<or> (\<exists>lg. \<forall>rs. F rs = Inr (replay lg rs))"

definition same_builtins :: "host \<Rightarrow> host \<Rightarrow> bool" where
  "same_builtins h h' \<longleftrightarrow>
     to_number h' = to_number h \<and> num_to_string h' = num_to_string h
     \<and> json_parse_array h' = json_parse_array h"

definition merged :: "ValidationResult \<Rightarrow> ValidationResult \<Rightarrow> ValidationResult" where
  "merged r c =
     r\<lparr>errors := errors r @ errors c, warnings := warnings r @ warnings c,
       suggestions := suggestions r @ suggestions c, isValid := (isValid r \<and> isValid c)\<rparr>"

definition host_2026 :: host where
  "host_2026 = ref_host 1767225600000 ''2026-01-01T00:00:00.000Z''"

definition host_2027 :: host where
  "host_2027 = ref_host 1798761600000 ''2027-01-01T00:00:00.000Z''"

definition task_without_duration :: jsrecord where
  "task_without_duration = [(''title'', Str ''T''), (''priority'', Str ''high'')]"

definition duration_finding :: ValidationError where
  "duration_finding =
     mk_finding ''Duration'' ''Duration must be a positive number (>= 1)'' SevError
       (Some [''Set Duration to an integer >= 1''])"

definition task_without_duration_result :: ValidationResult where
  "task_without_duration_result =
     \<lparr>isValid = True,
      errors = [duration_finding],
      warnings =
        [mk_finding ''deadline'' ''Deadline should be in the future'' SevWarning None,
         mk_finding ''estimatedHours'' ''Estimated hours should be between 1 and 1000''
           SevWarning None],
      suggestions = [], score = Fin 90, recordId = Undefined, recordType = Tasks,
      qualityScore = Fin 90, validatedAt = ''2026-01-01T00:00:00.000Z''\<rparr>"

definition spec_quality_score :: "nat \<Rightarrow> nat \<Rightarrow> nat \<Rightarrow> nat \<Rightarrow> nat \<Rightarrow> int" where
  "spec_quality_score nErrors nWarnings nSuggestions nonEmptyFieldCount fieldCount =
     max 0 (min 100 (round (100 - 20 * of_nat nErrors - 10 * of_nat nWarnings
                             - 5 * of_nat nSuggestions
                             + 10 * (of_nat nonEmptyFieldCount / of_nat fieldCount) :: rat)))"

definition non_empty_field_count :: "jsrecord \<Rightarrow> nat" where
  "non_empty_field_count record =
     length (filter (\<lambda>field. field_of record field \<notin> {Null, Undefined, Str []})
               (map fst record))"

definition without_stamp :: "ValidationResult \<Rightarrow> ValidationResult" where
  "without_stamp r = r\<lparr>validatedAt := []\<rparr>"

definition numeric_name_client :: jsrecord where
  "numeric_name_client = [(''ClientName'', Num (Fin 5)), (''ClientID'', Str ''c1'')]"

definition task_with_deadline :: jsrecord where
  "task_with_deadline =
     [(''title'', Str ''T''), (''priority'', Str ''high''),
      (''deadline'', Num (Fin 1780000000000))]"

definition host_2026_later :: host where
  "host_2026_later = ref_host 1767225601000 ''2026-01-01T00:00:01.000Z''"

definition client_reference_finding :: ValidationError where
  "client_reference_finding =
     mk_finding ''clientId'' ''Referenced client does not exist'' SevError
       (Some [''Verify client ID exists in clients data''])"

definition client_reference :: "jsrecord \<Rightarrow> jsval" where
  "client_reference record =
     (case filter truthy
             [field_of record ''clientId'', field_of record ''ClientID'',
              field_of record ''client_id''] of
        [] \<Rightarrow> Undefined
      | v # vs \<Rightarrow> v)"

definition task_with_client :: jsrecord where
  "task_with_client =
     [(''title'', Str ''T''), (''priority'', Str ''high''), (''Duration'', Num (Fin 2)),
      (''clientId'', Str ''C1'')]"

definition react_worker :: jsval where
  "react_worker = Obj [(''name'', Str ''W''), (''skills'', Arr [Str ''React''])]"

definition task_react_python :: jsrecord where
  "task_react_python =
     [(''title'', Str ''T''), (''priority'', Str ''high''), (''Duration'', Num (Fin 2)),
      (''RequiredSkills'', Arr [Str ''React'', Str ''Python''])]"

definition registry_workers_only :: Registry where
  "registry_workers_only = \<lparr>clients = [], workers = [react_worker], tasks = []\<rparr>"

definition registry_workers_tasks :: Registry where
  "registry_workers_tasks =
     \<lparr>clients = [], workers = [react_worker], tasks = [Obj task_react_python]\<rparr>"

definition python_finding :: ValidationError where
  "python_finding =
     mk_finding ''RequiredSkills'' ''Missing worker coverage for skills: Python'' SevError
       (Some [''Add workers with these skills or adjust task requirements''])"

definition missing_skills :: "host \<Rightarrow> string list \<Rightarrow> jsrecord \<Rightarrow> string list" where
  "missing_skills h workerSkills t =
     filter (\<lambda>s. toLowerCase s \<notin> set workerSkills) (required_skills h t)"

definition missing_skills_finding :: "string list \<Rightarrow> ValidationError" where
  "missing_skills_finding missing =
     mk_finding ''RequiredSkills''
       (''Missing worker coverage for skills: '' @ js_join '', '' missing) SevError
       (Some [''Add workers with these skills or adjust task requirements''])"

definition client_requesting :: jsrecord where
  "client_requesting =
     [(''ClientName'', Str ''Acme''), (''ClientID'', Str ''c1''),
      (''PriorityLevel'', Num (Fin 3)), (''RequestedTaskIDs'', Str ''T1, T7,t9'')]"

definition registry_clients_tasks :: Registry where
  "registry_clients_tasks =
     \<lparr>clients = [Obj client_requesting], workers = [],
      tasks = [Obj [(''TaskID'', Str ''T1'')]]\<rparr>"

text \<open>
  The condition of a rule throws on a record: building or running the function
  of its condition text on the value of its field raises an exception.
\<close>

definition condition_throws :: "host \<Rightarrow> nat \<Rightarrow> jsrecord \<Rightarrow> ValidationRule \<Rightarrow> bool" where
  "condition_throws h i record r \<longleftrightarrow>
     run_condition h i (condition r) (getFieldValue record (rule_field r)) record = None"

text \<open>
  The findings that a list of rules owes on a record in one severity, as the
  specification describes them: one for each rule of that severity, in the order
  of the list, whose condition returns a value that is falsy, with the field and
  the message of the rule and its fix suggestion, if it has one, as the only
  suggestion. A rule whose condition throws owes nothing.
\<close>

definition rule_findings ::
  "host \<Rightarrow> nat \<Rightarrow> jsrecord \<Rightarrow> Severity \<Rightarrow> ValidationRule list \<Rightarrow> ValidationError list" where
  "rule_findings h i record sev rs =
     map (\<lambda>r. \<lparr>ve_field = rule_field r, ve_message = rule_message r, ve_severity = sev,
               ve_suggestions =
                 (case fixSuggestion r of
                    None \<Rightarrow> None
                  | Some s \<Rightarrow> if s = [] then None else Some [s])\<rparr>)
       (filter (\<lambda>r. rule_severity r = sev
                    \<and> (case run_condition h i (condition r)
                               (getFieldValue record (rule_field r)) record of
                          None \<Rightarrow> False
                        | Some v \<Rightarrow> \<not> truthy v)) rs)"

text \<open>
  The identifier of a task of the registry, as text: its \<^verbatim>\<open>TaskID\<close>, else its
  \<^verbatim>\<open>id\<close>, else its \<^verbatim>\<open>title\<close>, else the empty text.
\<close>

definition task_id_text :: "host \<Rightarrow> jsval \<Rightarrow> string" where
  "task_id_text h t =
     js_String h
       (coalesce
          (coalesce (coalesce (opt_prop t ''TaskID'') (opt_prop t ''id'')) (opt_prop t ''title''))
          (Str []))"

text \<open>
  The requested identifiers that are absent from the task collection: those
  that, letter case apart, are the identifier of no task.
\<close>

definition absent_task_ids :: "host \<Rightarrow> jsval list \<Rightarrow> string list \<Rightarrow> string list" where
  "absent_task_ids h ts requested =
     filter (\<lambda>x. \<forall>t \<in> set ts. toLowerCase (task_id_text h t) \<noteq> toLowerCase x) requested"

definition registry_tasks_only :: Registry where
  "registry_tasks_only =
     \<lparr>clients = [], workers = [], tasks = [Obj [(''TaskID'', Str ''T1'')]]\<rparr>"

section \<open>Properties of the cross-record pass\<close>

lemma replay_Nil [simp]: "replay [] rs = rs"
  by (simp add: replay_def)

lemma replay_append: "replay (a @ b) rs = replay b (replay a rs)"
  by (simp add: replay_def)

lemma length_push_error [simp]: "length (push_error i e rs) = length rs"
  by (simp add: push_error_def)

lemma length_push_warning [simp]: "length (push_warning i e rs) = length rs"
  by (simp add: push_warning_def)

lemma length_replay [simp]: "length (replay lg rs) = length rs"
  by (induction lg arbitrary: rs) (auto simp: replay_def replay_step_def)

lemma nth_push_error:
  "j < length rs \<Longrightarrow>
   push_error i e rs ! j = (if i = j then (rs ! j)\<lparr>errors := errors (rs ! j) @ [e]\<rparr> else rs ! j)"
  by (simp add: push_error_def)

lemma nth_push_warning:
  "j < length rs \<Longrightarrow>
   push_warning i e rs ! j = (if i = j then (rs ! j)\<lparr>warnings := warnings (rs ! j) @ [e]\<rparr> else rs ! j)"
  by (simp add: push_warning_def)

lemma nth_replay:
  "j < length rs \<Longrightarrow>
   replay lg rs ! j =
     (rs ! j)\<lparr>errors := errors (rs ! j) @ log_errors lg j,
              warnings := warnings (rs ! j) @ log_warnings lg j\<rparr>"
proof (induction lg arbitrary: rs)
  case Nil
  then show ?case by (simp add: log_errors_def log_warnings_def)
next
  case (Cons p lg)
  obtain i w e where p: "p = (i, w, e)" by (cases p) auto
  have step: "replay (p # lg) rs = replay lg (replay_step p rs)"
    by (simp add: replay_def)
  have len: "j < length (replay_step p rs)"
    using Cons.prems by (simp add: replay_step_def p)
  show ?case
    unfolding step Cons.IH [OF len]
    using Cons.prems
    by (cases w) (auto simp: replay_step_def p nth_push_error nth_push_warning
        log_errors_def log_warnings_def)
qed

lemma pushes_id: "pushes (\<lambda>rs. rs)"
  unfolding pushes_def by (rule exI [of _ "[]"]) simp

lemma pushes_push_error: "pushes (push_error i e)"
  unfolding pushes_def by (rule exI [of _ "[(i, False, e)]"]) (simp add: replay_def replay_step_def)

lemma pushes_push_warning: "pushes (push_warning i e)"
  unfolding pushes_def by (rule exI [of _ "[(i, True, e)]"]) (simp add: replay_def replay_step_def)

lemma pushes_comp: "pushes F \<Longrightarrow> pushes G \<Longrightarrow> pushes (\<lambda>rs. G (F rs))"
  unfolding pushes_def
proof -
  assume "\<exists>lg. \<forall>rs. F rs = replay lg rs" and "\<exists>lg. \<forall>rs. G rs = replay lg rs"
  then obtain a b where a: "\<forall>rs. F rs = replay a rs" and b: "\<forall>rs. G rs = replay b rs"
    by blast
  have "\<forall>rs. G (F rs) = replay (a @ b) rs"
    by (simp add: a b replay_append)
  then show "\<exists>lg. \<forall>rs. G (F rs) = replay lg rs" ..
qed

lemma pushes_if: "(b \<Longrightarrow> pushes F) \<Longrightarrow> (\<not> b \<Longrightarrow> pushes G) \<Longrightarrow> pushes (\<lambda>rs. if b then F rs else G rs)"
  by (cases b) simp_all

lemma pushes_fold: "(\<And>x. pushes (f x)) \<Longrightarrow> pushes (fold f xs)"
proof (induction xs)
  case Nil
  show ?case using pushes_id by simp
next
  case (Cons x xs)
  have "pushes (\<lambda>rs. fold f xs (f x rs))"
    by (rule pushes_comp) (use Cons in auto)
  then show ?case by (simp add: comp_def)
qed

lemma pushes_forEach: "(\<And>i x. pushes (f i x)) \<Longrightarrow> pushes (forEach_idx f k xs)"
proof (induction xs arbitrary: k)
  case Nil
  show ?case using pushes_id by (simp add: fun_eq_iff pushes_def)
next
  case (Cons x xs)
  have "pushes (\<lambda>rs. forEach_idx f (Suc k) xs (f k x rs))"
    by (rule pushes_comp) (use Cons in auto)
  then show ?case by (simp add: pushes_def)
qed

lemma sum_pushes_Inl: "sum_pushes (\<lambda>rs. Inl e)"
  by (auto simp: sum_pushes_def)

lemma sum_pushes_Inr: "pushes F \<Longrightarrow> sum_pushes (\<lambda>rs. Inr (F rs))"
  by (auto simp: sum_pushes_def pushes_def)

lemma try_pushes_tryEach:
  "(\<And>i x. sum_pushes (f i x)) \<Longrightarrow> try_pushes (tryEach_idx f k xs)"
proof (induction xs arbitrary: k)
  case Nil
  show ?case unfolding try_pushes_def
    by (rule exI [of _ None], rule exI [of _ "[]"]) simp
next
  case (Cons x xs)
  have "sum_pushes (f k x)" by (rule Cons.prems)
  then consider (thr) e where "\<forall>rs. f k x rs = Inl e"
    | (ok) lg where "\<forall>rs. f k x rs = Inr (replay lg rs)"
    unfolding sum_pushes_def by blast
  then show ?case
  proof cases
    case thr
    then show ?thesis unfolding try_pushes_def
      by (intro exI [of _ "Some e"] exI [of _ "[]"]) simp
  next
    case ok
    from Cons.IH [OF Cons.prems, of "Suc k"]
    obtain eo lg' where r: "\<forall>rs. tryEach_idx f (Suc k) xs rs = (eo, replay lg' rs)"
      unfolding try_pushes_def by blast
    show ?thesis unfolding try_pushes_def
      by (intro exI [of _ eo] exI [of _ "lg @ lg'"]) (simp add: ok r replay_append)
  qed
qed

lemma try_pushes_and_then: "try_pushes F \<Longrightarrow> try_pushes G \<Longrightarrow> try_pushes (and_then F G)"
proof -
  assume "try_pushes F" and "try_pushes G"
  then obtain e1 l1 e2 l2 where f: "\<forall>rs. F rs = (e1, replay l1 rs)"
    and g: "\<forall>rs. G rs = (e2, replay l2 rs)"
    unfolding try_pushes_def by blast
  show ?thesis
  proof (cases e1)
    case None
    show ?thesis unfolding try_pushes_def
      by (intro exI [of _ e2] exI [of _ "l1 @ l2"]) (simp add: and_then_def f g None replay_append)
  next
    case (Some e)
    show ?thesis unfolding try_pushes_def
      by (intro exI [of _ e1] exI [of _ l1]) (simp add: and_then_def f Some)
  qed
qed

lemma try_pushes_when: "try_pushes F \<Longrightarrow> try_pushes (when_do b F)"
proof (cases b)
  case True
  assume "try_pushes F"
  then show ?thesis using True by (simp add: when_do_def try_pushes_def)
next
  case False
  show ?thesis unfolding try_pushes_def
    by (intro exI [of _ None] exI [of _ "[]"]) (simp add: when_do_def False)
qed

lemma try_pushes_const: "try_pushes (\<lambda>rs. (eo, rs))"
  unfolding try_pushes_def by (intro exI [of _ eo] exI [of _ "[]"]) simp

lemma try_pushes_None: "pushes F \<Longrightarrow> try_pushes (\<lambda>rs. (None, F rs))"
  by (auto simp: try_pushes_def pushes_def)

lemma sum_pushes_throwing: "try_pushes F \<Longrightarrow> sum_pushes (\<lambda>rs. throwing (F rs))"
proof -
  assume "try_pushes F"
  then obtain eo lg where f: "\<forall>rs. F rs = (eo, replay lg rs)"
    unfolding try_pushes_def by blast
  show ?thesis
    by (cases eo) (auto simp: sum_pushes_def throwing_def f)
qed

lemma sum_pushes_after:
  "pushes F \<Longrightarrow> sum_pushes G \<Longrightarrow> sum_pushes (\<lambda>rs. G (F rs))"
proof -
  assume "pushes F" and g: "sum_pushes G"
  then obtain a where a: "\<forall>rs. F rs = replay a rs" unfolding pushes_def by blast
  from g show ?thesis unfolding sum_pushes_def
  proof (elim disjE exE)
    fix e assume "\<forall>rs. G rs = Inl e"
    then show "(\<exists>e. \<forall>rs. G (F rs) = Inl e) \<or> (\<exists>lg. \<forall>rs. G (F rs) = Inr (replay lg rs))"
      by auto
  next
    fix lg assume "\<forall>rs. G rs = Inr (replay lg rs)"
    then have "\<forall>rs. G (F rs) = Inr (replay (a @ lg) rs)"
      by (simp add: a replay_append)
    then show "(\<exists>e. \<forall>rs. G (F rs) = Inl e) \<or> (\<exists>lg. \<forall>rs. G (F rs) = Inr (replay lg rs))"
      by blast
  qed
qed

lemma sum_pushes_bind:
  "sum_pushes F \<Longrightarrow> sum_pushes G \<Longrightarrow>
   sum_pushes (\<lambda>rs. case F rs of Inl e \<Rightarrow> Inl e | Inr rs' \<Rightarrow> G rs')"
proof -
  assume f: "sum_pushes F" and g: "sum_pushes G"
  from f consider (thr) e where "\<forall>rs. F rs = Inl e" | (ok) lg where "\<forall>rs. F rs = Inr (replay lg rs)"
    unfolding sum_pushes_def by blast
  then show ?thesis
  proof cases
    case thr
    then show ?thesis by (simp add: sum_pushes_def)
  next
    case ok
    then have "pushes (replay lg)" by (auto simp: pushes_def)
    from sum_pushes_after [OF this g] show ?thesis by (simp add: ok)
  qed
qed

lemma pushesI: "(\<And>rs. F rs = G rs) \<Longrightarrow> pushes G \<Longrightarrow> pushes F"
proof -
  assume "\<And>rs. F rs = G rs"
  then have "F = G" by (simp add: fun_eq_iff)
  then show "pushes G \<Longrightarrow> pushes F" by simp
qed

lemma sum_pushesI: "(\<And>rs. F rs = G rs) \<Longrightarrow> sum_pushes G \<Longrightarrow> sum_pushes F"
proof -
  assume "\<And>rs. F rs = G rs"
  then have "F = G" by (simp add: fun_eq_iff)
  then show "sum_pushes G \<Longrightarrow> sum_pushes F" by simp
qed

lemma try_pushesI: "(\<And>rs. F rs = G rs) \<Longrightarrow> try_pushes G \<Longrightarrow> try_pushes F"
proof -
  assume "\<And>rs. F rs = G rs"
  then have "F = G" by (simp add: fun_eq_iff)
  then show "try_pushes G \<Longrightarrow> try_pushes F" by simp
qed

lemma pushes_when_error: "pushes (\<lambda>rs. if b then push_error i e rs else rs)"
  by (rule pushes_if) (simp_all add: pushes_push_error pushes_id)

lemma pushes_when_warning: "pushes (\<lambda>rs. if b then push_warning i e rs else rs)"
  by (rule pushes_if) (simp_all add: pushes_push_warning pushes_id)

lemma pushes_mark_duplicate: "pushes (mark_duplicate d)"
proof (cases d)
  case (fields indices field message)
  show ?thesis
    by (rule pushesI [where G = "fold (\<lambda>index. push_warning index
                (mk_finding field message SevWarning
                   (Some [''Review for potential duplicate entries'']))) indices"])
      (simp_all add: mark_duplicate_def fields pushes_fold pushes_push_warning)
qed

lemma pushes_client_reference_step: "pushes (client_reference_step h ctx i r)"
  by (rule pushesI [OF _ pushes_when_error]) (simp add: client_reference_step_def Let_def)

lemma pushes_duration_step: "pushes (duration_step h i r)"
  by (rule pushesI [OF _ pushes_when_error]) (simp add: duration_step_def Let_def)

lemma sum_pushes_when_error: "sum_pushes (\<lambda>rs. Inr (if b then push_error i e rs else rs))"
  by (rule sum_pushes_Inr) (rule pushes_when_error)

lemma sum_pushes_preferred_phases_step: "sum_pushes (preferred_phases_step h i r)"
proof -
  let ?raw = "coalesce (field_of r ''PreferredPhases'') (field_of r ''preferredPhases'')"
  show ?thesis
  proof (cases "?raw = Undefined")
    case True
    show ?thesis
      by (rule sum_pushesI [OF _ sum_pushes_Inr [OF pushes_id]])
        (simp add: preferred_phases_step_def True)
  next
    case False
    show ?thesis
    proof (cases "parseNumberList h ?raw")
      case (Inl e)
      show ?thesis
        by (rule sum_pushesI [OF _ sum_pushes_Inl [of e]])
          (simp add: preferred_phases_step_def False Inl)
    next
      case (Inr phases)
      show ?thesis
        by (rule sum_pushesI [OF _ sum_pushes_when_error])
          (simp add: preferred_phases_step_def False Inr)
    qed
  qed
qed

lemma sum_pushes_available_slots_step: "sum_pushes (available_slots_step h i r)"
proof -
  let ?raw = "coalesce (field_of r ''AvailableSlots'') (field_of r ''availableSlots'')"
  show ?thesis
  proof (cases "?raw = Undefined")
    case True
    show ?thesis
      by (rule sum_pushesI [OF _ sum_pushes_Inr [OF pushes_id]])
        (simp add: available_slots_step_def True)
  next
    case False
    show ?thesis
    proof (cases "parseNumberList h ?raw")
      case (Inl e)
      show ?thesis
        by (rule sum_pushesI [OF _ sum_pushes_Inl [of e]])
          (simp add: available_slots_step_def False Inl)
    next
      case (Inr slots)
      show ?thesis
        by (rule sum_pushesI [OF _ sum_pushes_when_error])
          (simp add: available_slots_step_def False Inr)
    qed
  qed
qed

lemma pushes_skill_step: "pushes (skill_step h ws i t)"
  by (rule pushesI [OF _ pushes_when_error]) (simp add: skill_step_def Let_def)

lemma try_pushes_skill_coverage: "try_pushes (skill_coverage h ws records)"
proof (cases "try_map (worker_skills h) ws")
  case (Inl e)
  show ?thesis
    by (rule try_pushesI [OF _ try_pushes_const [of "Some e"]]) (simp add: skill_coverage_def Inl)
next
  case (Inr sks)
  show ?thesis
    by (rule try_pushesI [OF _ try_pushes_None [OF pushes_forEach [OF pushes_skill_step]]])
      (simp add: skill_coverage_def Inr)
qed

lemma sum_pushes_concurrency_step: "sum_pushes (concurrency_step h ws i t)"
proof (cases "try_filter (is_qualified h (map toLowerCase (required_skills h t))) ws")
  case (Inl e)
  show ?thesis
    by (rule sum_pushesI [OF _ sum_pushes_Inl [of e]]) (simp add: concurrency_step_def Inl)
next
  case (Inr q)
  show ?thesis
    by (rule sum_pushesI [OF _ sum_pushes_when_error])
      (simp add: concurrency_step_def Inr Let_def)
qed

lemma pushes_phase_fold:
  "pushes (fold (\<lambda>p r. if c p then push_warning idx (e p) r else r) phases)"
  by (rule pushes_fold) (rule pushes_when_warning)

lemma sum_pushes_phase_step: "sum_pushes (phase_step h cap i t)"
proof (cases "parseNumberList h
                (coalesce (field_of t ''PreferredPhases'') (field_of t ''preferredPhases''))")
  case (Inl e)
  show ?thesis
    by (rule sum_pushesI [OF _ sum_pushes_Inl [of e]]) (simp add: phase_step_def Inl)
next
  case (Inr phases)
  show ?thesis
    by (rule sum_pushesI [OF _ sum_pushes_Inr [OF pushes_if [OF pushes_id pushes_phase_fold]]])
      (simp add: phase_step_def Inr Let_def)
qed

lemma try_pushes_phase_saturation: "try_pushes (phase_saturation h ws records)"
proof (cases "build_capacity h Map.empty ws")
  case (Inl e)
  show ?thesis
    by (rule try_pushesI [OF _ try_pushes_const [of "Some e"]]) (simp add: phase_saturation_def Inl)
next
  case (Inr cap)
  show ?thesis
    by (rule try_pushesI [OF _ try_pushes_tryEach [OF sum_pushes_phase_step]])
      (simp add: phase_saturation_def Inr)
qed

lemma pushes_requested_tasks_step: "pushes (requested_tasks_step h ids i c)"
  by (rule pushesI [OF _ pushes_when_error]) (simp add: requested_tasks_step_def Let_def)

lemma try_pushes_requested_tasks: "try_pushes (requested_tasks h ts records)"
proof (cases "try_map (task_identifier h) ts")
  case (Inl e)
  show ?thesis
    by (rule try_pushesI [OF _ try_pushes_const [of "Some e"]]) (simp add: requested_tasks_def Inl)
next
  case (Inr ids)
  show ?thesis
    by (rule try_pushesI [OF _ try_pushes_None [OF pushes_forEach [OF pushes_requested_tasks_step]]])
      (simp add: requested_tasks_def Inr)
qed

lemma try_pushes_registry_checks: "try_pushes (registry_checks h ctx records dataType)"
proof (cases ctx)
  case None
  show ?thesis
    by (rule try_pushesI [OF _ try_pushes_const [of "Some ModuleNotFound"]])
      (simp add: registry_checks_def None)
next
  case (Some reg)
  show ?thesis
    by (rule try_pushesI [OF _ try_pushes_and_then [OF try_pushes_when [OF try_pushes_skill_coverage]
            try_pushes_and_then [OF try_pushes_when [OF try_pushes_tryEach [OF sum_pushes_concurrency_step]]
              try_pushes_and_then [OF try_pushes_when [OF try_pushes_phase_saturation]
                try_pushes_when [OF try_pushes_requested_tasks]]]]])
      (simp add: registry_checks_def Some Let_def)
qed

lemma sum_pushes_task_checks: "sum_pushes (task_checks h ctx records)"
proof -
  have a: "pushes (\<lambda>rs. forEach_idx (duration_step h) 0 records
             (forEach_idx (client_reference_step h ctx) 0 records rs))"
    by (rule pushes_comp) (rule pushes_forEach, rule pushes_client_reference_step,
        rule pushes_forEach, rule pushes_duration_step)
  have b: "sum_pushes (\<lambda>rs. throwing (tryEach_idx (preferred_phases_step h) 0 records rs))"
    by (rule sum_pushes_throwing) (rule try_pushes_tryEach, rule sum_pushes_preferred_phases_step)
  show ?thesis
    by (rule sum_pushesI [OF _ sum_pushes_after [OF a b]]) (simp add: task_checks_def)
qed

lemma sum_pushes_worker_checks: "sum_pushes (worker_checks h records)"
  by (rule sum_pushesI [OF _ sum_pushes_throwing [OF try_pushes_tryEach [OF sum_pushes_available_slots_step]]])
    (simp add: worker_checks_def)

lemma pushes_snd_try: "try_pushes F \<Longrightarrow> pushes (\<lambda>rs. snd (F rs))"
  by (auto simp: try_pushes_def pushes_def)

lemma sum_pushes_if: "(b \<Longrightarrow> sum_pushes F) \<Longrightarrow> (\<not> b \<Longrightarrow> sum_pushes G) \<Longrightarrow> sum_pushes (\<lambda>rs. if b then F rs else G rs)"
  by (cases b) simp_all

lemma sum_pushes_cross_checks: "sum_pushes (cross_checks h ctx records dataType)"
proof -
  have d: "pushes (fold mark_duplicate (findDuplicates h records dataType))"
    by (rule pushes_fold) (rule pushes_mark_duplicate)
  have t: "sum_pushes (\<lambda>rs. if dataType = Tasks then task_checks h ctx records rs else Inr rs)"
    by (rule sum_pushes_if) (simp_all add: sum_pushes_task_checks sum_pushes_Inr pushes_id)
  have w: "sum_pushes (\<lambda>rs. if dataType = Workers then worker_checks h records rs else Inr rs)"
    by (rule sum_pushes_if) (simp_all add: sum_pushes_worker_checks sum_pushes_Inr pushes_id)
  have r: "sum_pushes (\<lambda>rs. Inr (snd (registry_checks h ctx records dataType rs)))"
    by (rule sum_pushes_Inr) (rule pushes_snd_try, rule try_pushes_registry_checks)
  show ?thesis
    by (rule sum_pushesI [OF _ sum_pushes_after [OF d sum_pushes_bind [OF t sum_pushes_bind [OF w r]]]])
      (simp add: cross_checks_def Let_def)
qed

lemma sb_js_String_at:
  assumes a: "same_builtins h h'"
  shows "js_String h' v = js_String h v"
proof (induction v)
  case (Arr xs)
  have eq: "map (\<lambda>x. if nullish x then [] else js_String h' x) xs
        = map (\<lambda>x. if nullish x then [] else js_String h x) xs"
    by (rule map_cong) (simp_all add: Arr)
  show ?case unfolding js_String.simps by (rule arg_cong [OF eq])
qed (use a in \<open>simp_all add: same_builtins_def\<close>)

lemma sb_js_String:
  assumes a: "same_builtins h h'"
  shows "js_String h' = js_String h"
  by (intro ext) (rule sb_js_String_at [OF a])

lemma sb_to_number: "same_builtins h h' \<Longrightarrow> to_number h' = to_number h"
  by (simp add: same_builtins_def)

lemma sb_num_to_string: "same_builtins h h' \<Longrightarrow> num_to_string h' = num_to_string h"
  by (simp add: same_builtins_def)

lemma sb_json_parse_array: "same_builtins h h' \<Longrightarrow> json_parse_array h' = json_parse_array h"
  by (simp add: same_builtins_def)

lemma sb_js_Number:
  assumes a: "same_builtins h h'"
  shows "js_Number h' = js_Number h"
proof (intro ext)
  fix v
  show "js_Number h' v = js_Number h v"
    by (cases v) (simp_all only: js_Number.simps sb_to_number [OF a] sb_js_String [OF a])
qed

lemma sb_parseNumberList:
  assumes a: "same_builtins h h'"
  shows "parseNumberList h' = parseNumberList h"
  by (intro ext)
    (unfold parseNumberList_def range_numbers_def comma_numbers_def sb_to_number [OF a]
      sb_json_parse_array [OF a] sb_js_Number [OF a], rule refl)

lemma sb_parseStringList:
  assumes a: "same_builtins h h'"
  shows "parseStringList h' = parseStringList h"
  by (intro ext) (unfold parseStringList_def sb_js_String [OF a], rule refl)

lemma sb_row_index_string:
  assumes a: "same_builtins h h'"
  shows "row_index_string h' = row_index_string h"
  by (intro ext) (unfold row_index_string_def sb_js_String [OF a], rule refl)

lemma sb_findDuplicates:
  assumes a: "same_builtins h h'"
  shows "findDuplicates h' = findDuplicates h"
proof -
  have n: "note_value h' = note_value h"
    by (intro ext) (unfold note_value_def sb_js_String [OF a], rule refl)
  show ?thesis
    by (intro ext) (unfold findDuplicates_def duplicates_of_field_def n, rule refl)
qed

lemma sb_client_reference_step:
  assumes a: "same_builtins h h'"
  shows "client_reference_step h' = client_reference_step h"
proof -
  have v: "isValidClientReference h' = isValidClientReference h"
    by (intro ext) (unfold isValidClientReference_def sb_js_String [OF a], rule refl)
  show ?thesis
    by (intro ext) (unfold client_reference_step_def v, rule refl)
qed

lemma sb_duration_step:
  assumes a: "same_builtins h h'"
  shows "duration_step h' = duration_step h"
  by (intro ext) (unfold duration_step_def sb_js_Number [OF a], rule refl)

lemma sb_preferred_phases_step:
  assumes a: "same_builtins h h'"
  shows "preferred_phases_step h' = preferred_phases_step h"
  by (intro ext) (unfold preferred_phases_step_def sb_parseNumberList [OF a], rule refl)

lemma sb_available_slots_step:
  assumes a: "same_builtins h h'"
  shows "available_slots_step h' = available_slots_step h"
  by (intro ext) (unfold available_slots_step_def sb_parseNumberList [OF a], rule refl)

lemma sb_worker_skills:
  assumes a: "same_builtins h h'"
  shows "worker_skills h' = worker_skills h"
  by (intro ext) (unfold worker_skills_def sb_parseStringList [OF a], rule refl)

lemma sb_required_skills:
  assumes a: "same_builtins h h'"
  shows "required_skills h' = required_skills h"
  by (intro ext) (unfold required_skills_def sb_parseStringList [OF a], rule refl)

lemma sb_skill_coverage:
  assumes a: "same_builtins h h'"
  shows "skill_coverage h' = skill_coverage h"
proof -
  have s: "skill_step h' = skill_step h"
    by (intro ext) (unfold skill_step_def sb_required_skills [OF a], rule refl)
  show ?thesis
    by (intro ext) (unfold skill_coverage_def sb_worker_skills [OF a] s, rule refl)
qed

lemma sb_concurrency_step:
  assumes a: "same_builtins h h'"
  shows "concurrency_step h' = concurrency_step h"
proof -
  have q: "is_qualified h' = is_qualified h"
    by (intro ext) (unfold is_qualified_def sb_worker_skills [OF a], rule refl)
  show ?thesis
    by (intro ext)
      (unfold concurrency_step_def q sb_num_to_string [OF a] sb_required_skills [OF a]
        sb_js_Number [OF a], rule refl)
qed

lemma sb_build_capacity:
  assumes a: "same_builtins h h'"
  shows "build_capacity h' = build_capacity h"
proof -
  have w: "add_worker_capacity h' = add_worker_capacity h"
    by (intro ext)
      (unfold add_worker_capacity_def sb_parseNumberList [OF a] sb_js_Number [OF a], rule refl)
  have "build_capacity h' cap ws = build_capacity h cap ws" for cap ws
    by (induction ws arbitrary: cap) (simp_all add: w split: sum.splits)
  then show ?thesis by (intro ext)
qed

lemma sb_phase_saturation:
  assumes a: "same_builtins h h'"
  shows "phase_saturation h' = phase_saturation h"
proof -
  have p: "phase_step h' = phase_step h"
    by (intro ext)
      (unfold phase_step_def phase_warning_def sb_num_to_string [OF a]
        sb_parseNumberList [OF a] sb_js_Number [OF a], rule refl)
  show ?thesis
    by (intro ext) (unfold phase_saturation_def sb_build_capacity [OF a] p, rule refl)
qed

lemma sb_requested_tasks:
  assumes a: "same_builtins h h'"
  shows "requested_tasks h' = requested_tasks h"
proof -
  have t: "task_identifier h' = task_identifier h"
    by (intro ext) (unfold task_identifier_def sb_js_String [OF a], rule refl)
  have r: "requested_tasks_step h' = requested_tasks_step h"
    by (intro ext)
      (unfold requested_tasks_step_def unknown_task_ids_def requested_task_ids_def
        sb_parseStringList [OF a], rule refl)
  show ?thesis
    by (intro ext) (unfold requested_tasks_def t r, rule refl)
qed

lemma sb_registry_checks:
  assumes a: "same_builtins h h'"
  shows "registry_checks h' = registry_checks h"
  by (intro ext)
    (unfold registry_checks_def sb_skill_coverage [OF a] sb_concurrency_step [OF a]
      sb_phase_saturation [OF a] sb_requested_tasks [OF a], rule refl)

lemma sb_cross_checks:
  assumes a: "same_builtins h h'"
  shows "cross_checks h' = cross_checks h"
  by (intro ext)
    (unfold cross_checks_def task_checks_def worker_checks_def sb_findDuplicates [OF a]
      sb_client_reference_step [OF a] sb_duration_step [OF a] sb_preferred_phases_step [OF a]
      sb_available_slots_step [OF a] sb_registry_checks [OF a], rule refl)

lemma merge_step_merged:
  "merge_step i c rs = (if i < length rs then rs[i := merged (rs ! i) c] else rs)"
  by (simp add: merge_step_def merged_def)

lemma length_forEach_merge [simp]: "length (forEach_idx merge_step k cs rs) = length rs"
  by (induction cs arbitrary: k rs) (simp_all add: merge_step_merged)

lemma nth_forEach_merge:
  "i < length rs \<Longrightarrow>
   forEach_idx merge_step k cs rs ! i =
     (if k \<le> i \<and> i < k + length cs then merged (rs ! i) (cs ! (i - k)) else rs ! i)"
proof (induction cs arbitrary: k rs)
  case Nil
  show ?case by auto
next
  case (Cons c cs)
  let ?rs = "merge_step k c rs"
  have len: "i < length ?rs"
    using Cons.prems by (simp add: merge_step_merged)
  have at: "?rs ! i = (if i = k then merged (rs ! i) c else rs ! i)"
    using Cons.prems by (simp add: merge_step_merged)
  have "forEach_idx merge_step k (c # cs) rs ! i = forEach_idx merge_step (Suc k) cs ?rs ! i"
    by simp
  also have "\<dots> = (if Suc k \<le> i \<and> i < Suc k + length cs
                   then merged (?rs ! i) (cs ! (i - Suc k)) else ?rs ! i)"
    by (rule Cons.IH [OF len])
  also have "\<dots> = (if k \<le> i \<and> i < k + length (c # cs)
                   then merged (rs ! i) ((c # cs) ! (i - k)) else rs ! i)"
  proof (cases "i = k")
    case True
    with at show ?thesis by simp
  next
    case False
    with at show ?thesis
      by (cases "k \<le> i") (auto simp: Suc_diff_le nth_Cons')
  qed
  finally show ?case .
qed

lemma length_initial_results [simp]: "length (initial_results h dataType records) = length records"
  by (simp add: initial_results_def)

lemma nth_initial_results:
  "i < length records \<Longrightarrow>
   initial_results h dataType records ! i
     = initial_result h dataType (length records) i (records ! i)"
  by (simp add: initial_results_def nth_enumerate_eq)

lemma validateBatch_throws:
  assumes "cross_checks h ctx records dataType rs0 = Inl e"
  shows "validateBatch h ctx rules records dataType = Inl e"
proof -
  from sum_pushes_cross_checks [of h ctx records dataType]
  consider (thr) e' where "\<forall>rs. cross_checks h ctx records dataType rs = Inl e'"
    | (ok) lg where "\<forall>rs. cross_checks h ctx records dataType rs = Inr (replay lg rs)"
    unfolding sum_pushes_def by blast
  then show ?thesis
  proof cases
    case thr
    with assms have "e' = e" by simp
    with thr show ?thesis
      by (simp add: validateBatch_def performCrossRecordValidation_def)
  next
    case ok
    with assms show ?thesis by simp
  qed
qed

lemma validateBatch_returns:
  assumes "validateBatch h ctx rules records dataType = Inr rs"
  shows "\<exists>lg. (\<forall>rs0. cross_checks h ctx records dataType rs0 = Inr (replay lg rs0))
           \<and> length rs = length records
           \<and> (\<forall>i < length records.
                 rs ! i = (validateRecord h i rules (records ! i) dataType)
                      \<lparr>errors := errors (validateRecord h i rules (records ! i) dataType)
                                   @ log_errors lg i,
                       warnings := warnings (validateRecord h i rules (records ! i) dataType)
                                   @ log_warnings lg i\<rparr>)"
proof -
  let ?per = "map (\<lambda>(i, record). validateRecord h i rules record dataType) (enumerate 0 records)"
  let ?init = "initial_results h dataType records"
  from sum_pushes_cross_checks [of h ctx records dataType]
  consider (thr) e where "\<forall>rs. cross_checks h ctx records dataType rs = Inl e"
    | (ok) lg where "\<forall>rs. cross_checks h ctx records dataType rs = Inr (replay lg rs)"
    unfolding sum_pushes_def by blast
  then show ?thesis
  proof cases
    case thr
    then have "validateBatch h ctx rules records dataType = Inl e"
      by (simp add: validateBatch_def performCrossRecordValidation_def)
    with assms show ?thesis by simp
  next
    case ok
    have rs: "rs = forEach_idx merge_step 0 (replay lg ?init) ?per"
      using assms by (simp add: validateBatch_def performCrossRecordValidation_def ok)
    have len: "length rs = length records"
      by (simp add: rs)
    have nth: "rs ! i = (validateRecord h i rules (records ! i) dataType)
                      \<lparr>errors := errors (validateRecord h i rules (records ! i) dataType)
                                   @ log_errors lg i,
                       warnings := warnings (validateRecord h i rules (records ! i) dataType)
                                   @ log_warnings lg i\<rparr>"
      if i: "i < length records" for i
    proof -
      have p: "?per ! i = validateRecord h i rules (records ! i) dataType"
        using i by (simp add: nth_enumerate_eq)
      have c: "replay lg ?init ! i
               = (initial_result h dataType (length records) i (records ! i))
                   \<lparr>errors := log_errors lg i, warnings := log_warnings lg i\<rparr>"
        using i by (simp add: nth_replay nth_initial_results initial_result_def)
      have "rs ! i = merged (?per ! i) (replay lg ?init ! i)"
        unfolding rs using i by (simp add: nth_forEach_merge)
      then show ?thesis
        unfolding p c by (simp add: merged_def initial_result_def)
    qed
    from ok len nth show ?thesis by blast
  qed
qed

lemma errors_push_error_nth:
  "i < length rs \<Longrightarrow>
   errors (push_error j e rs ! i) = errors (rs ! i) @ (if j = i then [e] else [])"
  by (simp add: nth_push_error)

lemma forEach_idx_push_error_nth:
  assumes f: "\<And>j x rs. f j x rs = (if P x then push_error j (E x) rs else rs)"
  shows "i < length rs \<Longrightarrow>
         errors (forEach_idx f k xs rs ! i)
           = errors (rs ! i)
             @ (if k \<le> i \<and> i < k + length xs \<and> P (xs ! (i - k)) then [E (xs ! (i - k))] else [])"
proof (induction xs arbitrary: k rs)
  case Nil
  show ?case by simp
next
  case (Cons x xs)
  let ?rs = "f k x rs"
  have len: "i < length ?rs"
    using Cons.prems by (simp add: f)
  have at: "errors (?rs ! i) = errors (rs ! i) @ (if k = i \<and> P x then [E x] else [])"
    using Cons.prems by (simp add: f errors_push_error_nth)
  have "errors (forEach_idx f k (x # xs) rs ! i) = errors (forEach_idx f (Suc k) xs ?rs ! i)"
    by simp
  also have "\<dots> = errors (?rs ! i)
      @ (if Suc k \<le> i \<and> i < Suc k + length xs \<and> P (xs ! (i - Suc k))
         then [E (xs ! (i - Suc k))] else [])"
    by (rule Cons.IH [OF len])
  also have "\<dots> = errors (rs ! i)
      @ (if k \<le> i \<and> i < k + length (x # xs) \<and> P ((x # xs) ! (i - k))
         then [E ((x # xs) ! (i - k))] else [])"
  proof (cases "i = k")
    case True
    with at show ?thesis by simp
  next
    case False
    with at show ?thesis
      by (cases "k \<le> i") (auto simp: Suc_diff_le nth_Cons')
  qed
  finally show ?case .
qed

lemma errors_replay_nth:
  "i < length rs \<Longrightarrow> errors (replay lg rs ! i) = errors (rs ! i) @ log_errors lg i"
  by (simp add: nth_replay)

lemma pushes_errors_grow:
  assumes "pushes F" and "i < length rs"
  shows "\<exists>ys. errors (F rs ! i) = errors (rs ! i) @ ys"
  using assms by (auto simp: pushes_def errors_replay_nth)

lemma pushes_length:
  assumes "pushes F"
  shows "length (F rs) = length rs"
  using assms by (auto simp: pushes_def)

lemma sum_pushes_errors_grow:
  assumes "sum_pushes F" and "F rs = Inr rs'" and "i < length rs"
  shows "\<exists>ys. errors (rs' ! i) = errors (rs ! i) @ ys"
  using assms by (auto simp: sum_pushes_def errors_replay_nth)

lemma errors_mark_duplicates:
  "i < length rs \<Longrightarrow> errors (fold mark_duplicate ds rs ! i) = errors (rs ! i)"
proof (induction ds arbitrary: rs)
  case Nil
  show ?case by simp
next
  case (Cons d ds)
  obtain indices field message where d: "d = (indices, field, message)"
    by (cases d) auto
  have one: "length (fold (\<lambda>index. push_warning index e) idxs r) = length r
             \<and> (i < length r \<longrightarrow> errors (fold (\<lambda>index. push_warning index e) idxs r ! i) = errors (r ! i))"
    for e idxs r
    by (induction idxs arbitrary: r) (auto simp: nth_push_warning)
  have len: "i < length (mark_duplicate d rs)"
    using Cons.prems by (simp add: mark_duplicate_def d one)
  have "errors (mark_duplicate d rs ! i) = errors (rs ! i)"
    using Cons.prems by (simp add: mark_duplicate_def d one)
  with Cons.IH [OF len] show ?case by simp
qed

lemma length_mark_duplicates [simp]: "length (fold mark_duplicate ds rs) = length rs"
  by (rule pushes_length) (rule pushes_fold, rule pushes_mark_duplicate)

lemmas string_defs = js_trim_def is_space_def is_digit_def startsWith_def endsWith_def
  remove_brackets_def strip_quotes_def range_match_def match_sep_def split_commas_def
  toLowerCase_def lower_char_def split_dots_def

lemmas ref_conv_defs = conv_host_def ref_to_number_def decimal_value_def digit_value_def
  ref_json_parse_array_def json_trim_def json_space_def is_json_nat_def

lemma range_match_not_bracket:
  assumes "range_match t = Some (d1, d2)"
  shows "\<not> startsWith t ''[''"
proof
  assume b: "startsWith t ''[''"
  then obtain cs where t: "t = CHR ''['' # cs"
    by (cases t) (auto simp: startsWith_def)
  have "takeWhile is_digit t = []"
    by (simp add: t is_digit_def)
  with assms show False
    by (auto simp: range_match_def Let_def split: list.splits if_splits)
qed

lemma parseNumberList_range:
  assumes m: "range_match (js_trim s) = Some (d1, d2)"
    and a: "to_number h d1 = Fin a" and b: "to_number h d2 = Fin b" and le: "a \<le> b"
  shows "parseNumberList h (Str s) = array_from_range a b"
  using range_match_not_bracket [OF m]
  by (simp add: parseNumberList_def range_numbers_def m a b le)

lemma array_from_range_too_long:
  "max_array_length < range_length a b \<Longrightarrow> array_from_range a b = Inl RangeError"
  by (simp add: array_from_range_def)

lemma huge_range_match: "range_match (js_trim ''0-4294967295'') = Some (''0'', ''4294967295'')"
  by (simp add: string_defs)

lemma huge_range_length: "max_array_length < range_length 0 4294967295"
  by (simp add: max_array_length_def range_length_def)

lemma parseNumberList_huge_range:
  assumes "to_number h ''0'' = Fin 0" and "to_number h ''4294967295'' = Fin 4294967295"
  shows "parseNumberList h (Str ''0-4294967295'') = Inl RangeError"
  using parseNumberList_range [OF huge_range_match assms] array_from_range_too_long [OF huge_range_length]
  by simp

lemma conv_host_numbers:
  "to_number conv_host ''0'' = Fin 0" "to_number conv_host ''4294967295'' = Fin 4294967295"
  by (simp_all add: ref_conv_defs string_defs)

text \<open>
  Claim C8 (\<open>parseNumberList\<close>: the four examples, a range text \<open>a-b\<close> expands to
  every integer from \<open>a\<close> to \<open>b\<close>, any other input yields the empty list, and the
  function never throws). The examples hold (\<open>parseNumberList_examples\<close>), an input
  that is neither an array nor a string yields the empty list
  (\<open>parseNumberList_not_list\<close>), and so does a string none of whose tokens is a
  finite number (\<open>parseNumberList_unparseable\<close>). But the range branch expands
  without a bound and outside the \<^verbatim>\<open>try\<close> that guards \<^verbatim>\<open>JSON.parse\<close>: on the range
  text \<^verbatim>\<open>0-4294967295\<close> the requested length is \<open>2\<^sup>3\<^sup>2\<close> and \<^verbatim>\<open>Array.from\<close> throws
  a RangeError, for every host that reads the two digit strings as the numbers
  they denote.
\<close>

theorem parseNumberList_throws_on_long_range:
  assumes "to_number h ''0'' = Fin 0" and "to_number h ''4294967295'' = Fin 4294967295"
  shows "parseNumberList h (Str ''0-4294967295'') = Inl RangeError"
  by (rule parseNumberList_huge_range [OF assms])

theorem parseNumberList_throws_on_long_range_witness:
  "to_number conv_host ''0'' = Fin 0 \<and> to_number conv_host ''4294967295'' = Fin 4294967295
   \<and> parseNumberList conv_host (Str ''0-4294967295'') = Inl RangeError"
  using parseNumberList_throws_on_long_range [of conv_host] conv_host_numbers by simp

lemma parseNumberList_examples:
  "parseNumberList conv_host (Str ''[1,2,3]'') = Inr [Fin 1, Fin 2, Fin 3]"
  "parseNumberList conv_host (Str ''1-3'') = Inr [Fin 1, Fin 2, Fin 3]"
  "parseNumberList conv_host (Str ''2,,4'') = Inr [Fin 2, Fin 4]"
  "parseNumberList conv_host (Str ''not a list'') = Inr []"
  by (simp_all add: parseNumberList_def range_numbers_def array_from_range_def range_length_def
      max_array_length_def comma_numbers_def ref_conv_defs string_defs upt_rec)

lemma parseNumberList_not_list:
  "\<not> (\<exists>xs. v = Arr xs) \<Longrightarrow> \<not> (\<exists>s. v = Str s) \<Longrightarrow> parseNumberList h v = Inr []"
  by (cases v) (simp_all add: parseNumberList_def)

lemma parseNumberList_unparseable:
  assumes "\<forall>t \<in> set (split_commas (remove_brackets (js_trim s))). \<not> js_isFinite (to_number h t)"
    and "range_match (js_trim s) = None"
    and "json_parse_array h (js_trim s) = None"
  shows "parseNumberList h (Str s) = Inr []"
proof -
  have "comma_numbers h (js_trim s) = []"
    using assms(1) by (simp add: comma_numbers_def filter_empty_conv)
  then show ?thesis
    by (simp add: parseNumberList_def range_numbers_def Let_def assms(2) assms(3))
qed

lemma preferred_phases_throw:
  assumes "to_number h ''0'' = Fin 0" and "to_number h ''4294967295'' = Fin 4294967295"
  shows "cross_checks h ctx [[(''PreferredPhases'', Str ''0-4294967295'')]] Tasks rs0 = Inl RangeError"
  by (simp add: cross_checks_def task_checks_def preferred_phases_step_def throwing_def
      field_of_def coalesce_def parseNumberList_huge_range [OF assms])

text \<open>
  Claim C3 (\<open>validateBatch\<close> returns one result for each record of the batch,
  in order, and never throws). When it returns, the result has the length of the
  batch (\<open>validateBatch_returns\<close>), and for a clients batch the cross-record
  pass always returns (\<open>validateBatch_clients_returns\<close>). But the
  PreferredPhases check of a tasks batch calls \<open>parseNumberList\<close> outside the
  \<^verbatim>\<open>try\<close> block, so on a task whose PreferredPhases is the range text
  \<^verbatim>\<open>0-4294967295\<close> the RangeError leaves \<open>validateBatch\<close>, whatever the rules
  and the registry are.
\<close>

theorem validateBatch_throws_on_long_range:
  assumes "to_number h ''0'' = Fin 0" and "to_number h ''4294967295'' = Fin 4294967295"
  shows "validateBatch h ctx rules [[(''PreferredPhases'', Str ''0-4294967295'')]] Tasks
         = Inl RangeError"
  by (rule validateBatch_throws [OF preferred_phases_throw [OF assms]])

theorem validateBatch_throws_on_long_range_witness:
  "to_number conv_host ''0'' = Fin 0 \<and> to_number conv_host ''4294967295'' = Fin 4294967295
   \<and> validateBatch conv_host (Some empty_registry) initializeDefaultRules
        [[(''PreferredPhases'', Str ''0-4294967295'')]] Tasks = Inl RangeError"
  using validateBatch_throws_on_long_range [of conv_host "Some empty_registry" initializeDefaultRules]
    conv_host_numbers by simp

lemma task_without_duration_batch:
  "validateBatch host_2026 (Some empty_registry) initializeDefaultRules
     [task_without_duration] Tasks = Inr [task_without_duration_result]"
  by code_simp

lemma task_without_duration_record:
  "validateRecord host_2026 0 initializeDefaultRules task_without_duration Tasks
   = task_without_duration_result\<lparr>errors := []\<rparr>"
  by code_simp

lemma validateRecord_isValid:
  "isValid (validateRecord h i rules record dataType)
   = (errors (validateRecord h i rules record dataType) = [])"
  by (simp add: validateRecord_def Let_def split: prod.splits)

lemma validateBatch_isValid:
  assumes "validateBatch h ctx rules records dataType = Inr rs" and "i < length records"
  shows "isValid (rs ! i) = (errors (validateRecord h i rules (records ! i) dataType) = [])"
proof -
  from validateBatch_returns [OF assms(1)] assms(2) obtain lg where
    nth: "rs ! i = (validateRecord h i rules (records ! i) dataType)
                      \<lparr>errors := errors (validateRecord h i rules (records ! i) dataType)
                                   @ log_errors lg i,
                       warnings := warnings (validateRecord h i rules (records ! i) dataType)
                                   @ log_warnings lg i\<rparr>"
    by blast
  show ?thesis
    by (simp add: nth validateRecord_isValid)
qed

text \<open>
  Claim C1 (every result of \<open>validateRecord\<close>, and every result of
  \<open>validateBatch\<close> after the merge, has \<open>isValid\<close> exactly when it has no
  errors). For \<open>validateRecord\<close> this holds (\<open>validateRecord_isValid\<close>). After the
  merge it does not: the cross-record pass creates its results with
  \<open>isValid = True\<close> and never clears the flag when it pushes an error, so the
  merged flag is the per-record one (\<open>validateBatch_isValid\<close>). With the default
  rules, an empty registry and no AI key, the task \<^verbatim>\<open>{title: "T", priority: "high"}\<close>
  passes the per-record error rules, receives the Duration error of the
  cross-record pass, and is returned valid with one error.
\<close>

theorem validateBatch_valid_despite_error:
  "validateBatch host_2026 (Some empty_registry) initializeDefaultRules
     [task_without_duration] Tasks = Inr [task_without_duration_result]
   \<and> isValid task_without_duration_result
   \<and> errors task_without_duration_result = [duration_finding]"
  using task_without_duration_batch by (simp add: task_without_duration_result_def)

theorem validateBatch_valid_despite_error_witness:
  "isValid (projr (validateBatch host_2026 (Some empty_registry) initializeDefaultRules
     [task_without_duration] Tasks) ! 0)
   \<and> length (errors (projr (validateBatch host_2026 (Some empty_registry) initializeDefaultRules
     [task_without_duration] Tasks) ! 0)) = 1"
  using validateBatch_valid_despite_error by simp

text \<open>
  Claim C10 (the merge of the cross-record results changes only the errors, the
  warnings, the suggestions and \<open>isValid\<close>): whenever \<open>validateBatch\<close> returns,
  each result has the score, the quality score, the record identifier, the record
  type and the time stamp that \<open>validateRecord\<close> computed for its record; the
  cross-record findings never change a score. The suggestions are unchanged as
  well, since no cross-record check emits one.
\<close>

theorem merge_keeps_score_and_identity:
  assumes "validateBatch h ctx rules records dataType = Inr rs" and "i < length records"
  shows "score (rs ! i) = score (validateRecord h i rules (records ! i) dataType)
       \<and> qualityScore (rs ! i) = qualityScore (validateRecord h i rules (records ! i) dataType)
       \<and> recordId (rs ! i) = recordId (validateRecord h i rules (records ! i) dataType)
       \<and> recordType (rs ! i) = recordType (validateRecord h i rules (records ! i) dataType)
       \<and> validatedAt (rs ! i) = validatedAt (validateRecord h i rules (records ! i) dataType)
       \<and> suggestions (rs ! i) = suggestions (validateRecord h i rules (records ! i) dataType)"
proof -
  from validateBatch_returns [OF assms(1)] assms(2) obtain lg where
    nth: "rs ! i = (validateRecord h i rules (records ! i) dataType)
                      \<lparr>errors := errors (validateRecord h i rules (records ! i) dataType)
                                   @ log_errors lg i,
                       warnings := warnings (validateRecord h i rules (records ! i) dataType)
                                   @ log_warnings lg i\<rparr>"
    by blast
  show ?thesis
    by (simp add: nth)
qed

theorem merge_keeps_score_and_identity_witness:
  "validateBatch host_2026 (Some empty_registry) initializeDefaultRules
     [task_without_duration] Tasks = Inr [task_without_duration_result]
   \<and> (0 :: nat) < length [task_without_duration]
   \<and> errors task_without_duration_result
       \<noteq> errors (validateRecord host_2026 0 initializeDefaultRules task_without_duration Tasks)
   \<and> score task_without_duration_result
       = score (validateRecord host_2026 0 initializeDefaultRules task_without_duration Tasks)
   \<and> validatedAt task_without_duration_result
       = validatedAt (validateRecord host_2026 0 initializeDefaultRules task_without_duration Tasks)"
  using merge_keeps_score_and_identity [OF task_without_duration_batch, of 0]
    task_without_duration_batch task_without_duration_record
  by (simp add: task_without_duration_result_def)

lemma apply_rule_fault:
  assumes "run_condition h i (condition r) (getFieldValue record (rule_field r)) record = None"
  shows "apply_rule h i record acc r = acc"
  using assms by (cases acc) (simp add: apply_rule_def evaluateCondition_def)

lemma js_min_Fin: "js_min (Fin a) (Fin b) = Fin (min a b)"
  by (auto simp: js_min_def min_def)

lemma js_max_Fin: "js_max (Fin a) (Fin b) = Fin (max a b)"
  by (auto simp: js_max_def max_def)

lemma quality_score_value:
  assumes "record \<noteq> []"
  shows "calculateQualityScore record errs warns suggs
         = Fin (of_int (spec_quality_score (length errs) (length warns) (length suggs)
                          (non_empty_field_count record) (length record)))"
proof -
  have n: "(of_nat (length record) :: rat) \<noteq> 0"
    using assms by simp
  have c: "length (filter (\<lambda>field. field_of record field \<noteq> Null
                              \<and> field_of record field \<noteq> Undefined
                              \<and> field_of record field \<noteq> Str []) (map fst record))
           = non_empty_field_count record"
    by (simp add: non_empty_field_count_def)
  define x :: rat where
    "x = 100 - 20 * of_nat (length errs) - 10 * of_nat (length warns)
         - 5 * of_nat (length suggs)
         + 10 * (of_nat (non_empty_field_count record) / of_nat (length record))"
  have s: "js_add
             (js_sub (js_sub (js_sub (Fin 100) (js_mul (num_of_nat (length errs)) (Fin 20)))
                        (js_mul (num_of_nat (length warns)) (Fin 10)))
                (js_mul (num_of_nat (length suggs)) (Fin 5)))
             (js_mul (js_div (num_of_nat (non_empty_field_count record))
                        (num_of_nat (length record))) (Fin 10))
           = Fin x"
    using n by (simp add: js_sub_def num_of_nat_def x_def)
  have r: "(of_int (max 0 (min 100 \<lfloor>x + 1 / 2\<rfloor>)) :: rat)
           = max 0 (min 100 (of_int \<lfloor>x + 1 / 2\<rfloor>))"
    by (simp add: max_def min_def)
  have "calculateQualityScore record errs warns suggs
        = js_max (Fin 0) (js_min (Fin 100) (js_round (Fin x)))"
    unfolding calculateQualityScore_def Let_def length_map c s ..
  also have "\<dots> = Fin (of_int (max 0 (min 100 \<lfloor>x + 1 / 2\<rfloor>)))"
    by (simp add: js_min_Fin js_max_Fin r)
  also have "max 0 (min 100 \<lfloor>x + 1 / 2\<rfloor>)
             = spec_quality_score (length errs) (length warns) (length suggs)
                 (non_empty_field_count record) (length record)"
    by (simp add: spec_quality_score_def round_def x_def)
  finally show ?thesis .
qed

lemma spec_quality_score_range:
  "0 \<le> spec_quality_score e w s k n \<and> spec_quality_score e w s k n \<le> 100"
  by (simp add: spec_quality_score_def)

lemma quality_score_empty_record: "calculateQualityScore [] errs warns suggs = NaN"
  by (simp add: calculateQualityScore_def js_sub_def num_of_nat_def js_min_def js_max_def)

lemma validateRecord_score:
  "score (validateRecord h i rules record dataType)
   = calculateQualityScore record (errors (validateRecord h i rules record dataType))
       (warnings (validateRecord h i rules record dataType))
       (suggestions (validateRecord h i rules record dataType))
   \<and> qualityScore (validateRecord h i rules record dataType)
     = score (validateRecord h i rules record dataType)"
  by (simp add: validateRecord_def Let_def split: prod.splits)

lemma validateRecord_findings_cong:
  assumes "run_condition h' i = run_condition h i" and "ai_reply h' i = ai_reply h i"
  shows "errors (validateRecord h' i rules record dataType)
           = errors (validateRecord h i rules record dataType)
       \<and> warnings (validateRecord h' i rules record dataType)
           = warnings (validateRecord h i rules record dataType)
       \<and> suggestions (validateRecord h' i rules record dataType)
           = suggestions (validateRecord h i rules record dataType)
       \<and> score (validateRecord h' i rules record dataType)
           = score (validateRecord h i rules record dataType)
       \<and> isValid (validateRecord h' i rules record dataType)
           = isValid (validateRecord h i rules record dataType)"
proof -
  have a: "apply_rule h' i record = apply_rule h i record"
    by (intro ext) (unfold apply_rule_def evaluateCondition_def assms(1), rule refl)
  have p: "performAIValidation h' i = performAIValidation h i"
    by (intro ext) (unfold performAIValidation_def assms(2), rule refl)
  show ?thesis
    by (simp add: validateRecord_def a p Let_def split: prod.splits)
qed

text \<open>
  Claim C2, amended (the quality score is the clamped, rounded formula, lies
  between 0 and 100, and is determined by the record and the rule set). For a
  record with at least one field the score is \<open>spec_quality_score\<close> of the numbers
  of errors, warnings and suggestions in the returned result and of the counts of
  non-empty and of all fields; it lies between 0 and 100; \<open>qualityScore\<close> equals
  it. It depends on the host only through the outcomes of the rule conditions and
  the answer of the AI validator for this record: two hosts that agree on these
  give the same score. It is not determined by record and rules alone, since a
  condition may read the clock.
\<close>

theorem quality_score_of_nonempty_record:
  assumes "record \<noteq> []"
  shows "score (validateRecord h i rules record dataType)
         = Fin (of_int (spec_quality_score
               (length (errors (validateRecord h i rules record dataType)))
               (length (warnings (validateRecord h i rules record dataType)))
               (length (suggestions (validateRecord h i rules record dataType)))
               (non_empty_field_count record) (length record)))
       \<and> js_le (Fin 0) (score (validateRecord h i rules record dataType))
       \<and> js_le (score (validateRecord h i rules record dataType)) (Fin 100)
       \<and> qualityScore (validateRecord h i rules record dataType)
           = score (validateRecord h i rules record dataType)
       \<and> (\<forall>h'. run_condition h' i = run_condition h i \<and> ai_reply h' i = ai_reply h i
               \<longrightarrow> score (validateRecord h' i rules record dataType)
                   = score (validateRecord h i rules record dataType))"
proof -
  let ?res = "validateRecord h i rules record dataType"
  let ?q = "spec_quality_score (length (errors ?res)) (length (warnings ?res))
              (length (suggestions ?res)) (non_empty_field_count record) (length record)"
  have v: "score ?res = Fin (of_int ?q)"
    using validateRecord_score [of h i rules "record" dataType]
      quality_score_value [OF assms] by simp
  have rng: "0 \<le> ?q \<and> ?q \<le> 100"
    by (rule spec_quality_score_range)
  have le: "js_le (Fin 0) (score ?res) \<and> js_le (score ?res) (Fin 100)"
    unfolding v using rng by (auto simp: less_le)
  have q: "qualityScore ?res = score ?res"
    using validateRecord_score [of h i rules "record" dataType] by blast
  have d: "\<forall>h'. run_condition h' i = run_condition h i \<and> ai_reply h' i = ai_reply h i
               \<longrightarrow> score (validateRecord h' i rules record dataType) = score ?res"
    using validateRecord_findings_cong [of _ i h rules "record" dataType] by blast
  from v le q d show ?thesis by blast
qed

theorem quality_score_of_nonempty_record_witness:
  "task_with_deadline \<noteq> []
   \<and> score (validateRecord host_2026 0 initializeDefaultRules task_with_deadline Tasks)
       = Fin (of_int (spec_quality_score 0 1 0 3 3))
   \<and> spec_quality_score 0 1 0 3 3 = 100
   \<and> js_le (score (validateRecord host_2026 0 initializeDefaultRules task_with_deadline Tasks))
       (Fin 100)"
proof -
  have n: "task_with_deadline \<noteq> []"
    by (simp add: task_with_deadline_def)
  have e: "length (errors (validateRecord host_2026 0 initializeDefaultRules task_with_deadline Tasks)) = 0"
    "length (warnings (validateRecord host_2026 0 initializeDefaultRules task_with_deadline Tasks)) = 1"
    "length (suggestions (validateRecord host_2026 0 initializeDefaultRules task_with_deadline Tasks)) = 0"
    by code_simp+
  have f: "non_empty_field_count task_with_deadline = 3" "length task_with_deadline = 3"
    by (simp_all add: non_empty_field_count_def task_with_deadline_def field_of_def)
  have g: "spec_quality_score 0 1 0 3 3 = 100"
    by (simp add: spec_quality_score_def round_def)
  from quality_score_of_nonempty_record [OF n, of host_2026 0 initializeDefaultRules Tasks]
  show ?thesis
    unfolding e f using n g by blast
qed

lemma quality_score_examples:
  "score (validateRecord host_2026 0 initializeDefaultRules [] Clients) = NaN"
  "score (validateRecord host_2026 0 initializeDefaultRules task_with_deadline Tasks) = Fin 100"
  "score (validateRecord host_2027 0 initializeDefaultRules task_with_deadline Tasks) = Fin 90"
  by code_simp+

text \<open>
  The claim C2 as it stands fails twice. The record without fields scores
  \<open>NaN\<close>, which is not at least 0. And with the default rules one task scores
  100 on 2026-01-01 and 90 on 2027-01-01, its deadline lying between the two.
\<close>

theorem quality_score_counterexample:
  "\<not> js_le (Fin 0) (score (validateRecord host_2026 0 initializeDefaultRules [] Clients))
   \<and> score (validateRecord host_2026 0 initializeDefaultRules task_with_deadline Tasks)
       \<noteq> score (validateRecord host_2027 0 initializeDefaultRules task_with_deadline Tasks)"
  by (simp add: quality_score_examples)

lemma validateRecord_without_stamp:
  assumes sb: "same_builtins h h'"
    and rc: "run_condition h' = run_condition h" and ai: "ai_reply h' = ai_reply h"
  shows "without_stamp (validateRecord h' i rules record dataType)
         = without_stamp (validateRecord h i rules record dataType)"
proof -
  have a: "apply_rule h' i record = apply_rule h i record"
    by (intro ext) (unfold apply_rule_def evaluateCondition_def rc, rule refl)
  have p: "performAIValidation h' i = performAIValidation h i"
    by (intro ext) (unfold performAIValidation_def ai, rule refl)
  show ?thesis
    by (simp add: validateRecord_def without_stamp_def a p sb_row_index_string [OF sb] Let_def
        split: prod.splits)
qed

lemma without_stamp_fields:
  assumes "without_stamp r' = without_stamp r"
  shows "errors r' = errors r" "warnings r' = warnings r" "suggestions r' = suggestions r"
    "isValid r' = isValid r" "score r' = score r" "recordId r' = recordId r"
    "recordType r' = recordType r" "qualityScore r' = qualityScore r"
    "ValidationResult.more r' = ValidationResult.more r"
  using arg_cong [OF assms, of errors] arg_cong [OF assms, of warnings]
    arg_cong [OF assms, of suggestions] arg_cong [OF assms, of isValid]
    arg_cong [OF assms, of score] arg_cong [OF assms, of recordId]
    arg_cong [OF assms, of recordType] arg_cong [OF assms, of qualityScore]
    arg_cong [OF assms, of ValidationResult.more]
  by (simp_all add: without_stamp_def)

lemma merged_without_stamp:
  assumes "without_stamp r' = without_stamp r"
    and "errors c' = errors c" and "warnings c' = warnings c"
    and "suggestions c' = suggestions c" and "isValid c' = isValid c"
  shows "without_stamp (merged r' c') = without_stamp (merged r c)"
  by (rule ValidationResult.equality)
    (simp_all add: merged_def without_stamp_def without_stamp_fields [OF assms(1)] assms)

lemma initial_result_findings:
  "errors (initial_result h dataType n i r) = []"
  "warnings (initial_result h dataType n i r) = []"
  "suggestions (initial_result h dataType n i r) = []"
  "isValid (initial_result h dataType n i r) = True"
  by (simp_all add: initial_result_def)

lemma merged_replay_without_stamp:
  assumes i: "i < length records"
    and w: "without_stamp r' = without_stamp r"
  shows "without_stamp (merged r' (replay lg (initial_results h' dataType records) ! i))
         = without_stamp (merged r (replay lg (initial_results h dataType records) ! i))"
  using i
  by (intro merged_without_stamp [OF w])
    (simp_all add: nth_replay nth_initial_results initial_result_findings)

lemma validateRecord_same_answers:
  assumes sb: "same_builtins h h'"
    and rc: "\<forall>r \<in> set (rules dataType).
               run_condition h' i (condition r) (getFieldValue record (rule_field r)) record
               = run_condition h i (condition r) (getFieldValue record (rule_field r)) record"
    and ai: "ai_reply h' i record dataType = ai_reply h i record dataType"
  shows "without_stamp (validateRecord h' i rules record dataType)
         = without_stamp (validateRecord h i rules record dataType)"
proof -
  have a: "foldl (apply_rule h' i record) acc rs = foldl (apply_rule h i record) acc rs"
    if "set rs \<subseteq> set (rules dataType)" for acc rs
    using that
  proof (induction rs arbitrary: acc)
    case Nil
    show ?case by simp
  next
    case (Cons r rs)
    have "apply_rule h' i record acc r = apply_rule h i record acc r"
      using rc Cons.prems by (simp add: apply_rule_def evaluateCondition_def)
    with Cons show ?case by simp
  qed
  have p: "performAIValidation h' i record dataType = performAIValidation h i record dataType"
    by (simp add: performAIValidation_def ai)
  show ?thesis
    by (simp add: validateRecord_def without_stamp_def a p sb_row_index_string [OF sb] Let_def
        split: prod.splits)
qed

text \<open>
  Claim C9, amended (two calls of \<open>validateBatch\<close> on the same batch, rules and
  registry give identical results). The hosts of the two calls have the same
  built-in conversions; if each rule condition evaluates to the same outcome on
  each record, and the AI validator answers the same, then both calls throw the
  same exception or return results that are equal once the time stamp
  \<open>validatedAt\<close> is erased.
\<close>

theorem validateBatch_repeatable_up_to_timestamp:
  assumes sb: "same_builtins h h'"
    and rc: "\<forall>i < length records. \<forall>r \<in> set (rules dataType).
               run_condition h' i (condition r)
                 (getFieldValue (records ! i) (rule_field r)) (records ! i)
               = run_condition h i (condition r)
                 (getFieldValue (records ! i) (rule_field r)) (records ! i)"
    and ai: "\<forall>i < length records.
               ai_reply h' i (records ! i) dataType = ai_reply h i (records ! i) dataType"
  shows "map_sum id (map without_stamp) (validateBatch h' ctx rules records dataType)
         = map_sum id (map without_stamp) (validateBatch h ctx rules records dataType)"
proof -
  let ?per = "\<lambda>h. map (\<lambda>(i, record). validateRecord h i rules record dataType)
                      (enumerate 0 records)"
  let ?init = "\<lambda>h. initial_results h dataType records"
  let ?all = "\<lambda>h lg. forEach_idx merge_step 0 (replay lg (?init h)) (?per h)"
  have cc: "cross_checks h' = cross_checks h"
    by (rule sb_cross_checks [OF sb])
  from sum_pushes_cross_checks [of h ctx records dataType]
  consider (thr) e where "\<forall>rs. cross_checks h ctx records dataType rs = Inl e"
    | (ok) lg where "\<forall>rs. cross_checks h ctx records dataType rs = Inr (replay lg rs)"
    unfolding sum_pushes_def by blast
  then show ?thesis
  proof cases
    case thr
    then show ?thesis
      by (simp add: validateBatch_def performCrossRecordValidation_def cc)
  next
    case ok
    have v: "validateBatch h ctx rules records dataType = Inr (?all h lg)"
      by (simp add: validateBatch_def performCrossRecordValidation_def ok)
    have v': "validateBatch h' ctx rules records dataType = Inr (?all h' lg)"
      by (simp add: validateBatch_def performCrossRecordValidation_def ok cc)
    have len: "length (?all h lg) = length records" "length (?all h' lg) = length records"
      by simp_all
    have "map without_stamp (?all h' lg) = map without_stamp (?all h lg)"
    proof (rule nth_equalityI)
      show "length (map without_stamp (?all h' lg)) = length (map without_stamp (?all h lg))"
        by simp
    next
      fix i
      assume "i < length (map without_stamp (?all h' lg))"
      then have i: "i < length records" by simp
      have p: "?per h ! i = validateRecord h i rules (records ! i) dataType"
        "?per h' ! i = validateRecord h' i rules (records ! i) dataType"
        using i by (simp_all add: nth_enumerate_eq)
      have w: "without_stamp (?per h' ! i) = without_stamp (?per h ! i)"
        unfolding p using rc ai i by (intro validateRecord_same_answers [OF sb]) auto
      have m: "?all h lg ! i = merged (?per h ! i) (replay lg (?init h) ! i)"
        "?all h' lg ! i = merged (?per h' ! i) (replay lg (?init h') ! i)"
        using i by (simp_all add: nth_forEach_merge)
      have "map without_stamp (?all h' lg) ! i = without_stamp (?all h' lg ! i)"
        by (rule nth_map) (simp add: i)
      also have "\<dots> = without_stamp (?all h lg ! i)"
        unfolding m by (rule merged_replay_without_stamp [OF i w])
      also have "\<dots> = map without_stamp (?all h lg) ! i"
        by (rule nth_map [symmetric]) (simp add: i)
      finally show "map without_stamp (?all h' lg) ! i = map without_stamp (?all h lg) ! i" .
    qed
    then show ?thesis
      by (simp add: v v')
  qed
qed

lemma later_same_builtins: "same_builtins host_2026 host_2026_later"
  by (simp add: same_builtins_def host_2026_def host_2026_later_def ref_host_def)

lemma later_same_answers:
  "\<forall>i < length [task_without_duration]. \<forall>r \<in> set (initializeDefaultRules Tasks).
     run_condition host_2026_later i (condition r)
       (getFieldValue ([task_without_duration] ! i) (rule_field r)) ([task_without_duration] ! i)
     = run_condition host_2026 i (condition r)
       (getFieldValue ([task_without_duration] ! i) (rule_field r)) ([task_without_duration] ! i)"
  by code_simp

lemma later_same_ai:
  "\<forall>i < length [task_without_duration].
     ai_reply host_2026_later i ([task_without_duration] ! i) Tasks
     = ai_reply host_2026 i ([task_without_duration] ! i) Tasks"
  by (simp add: host_2026_def host_2026_later_def ref_host_def conv_host_def)

theorem validateBatch_repeatable_up_to_timestamp_witness:
  "same_builtins host_2026 host_2026_later
   \<and> map_sum id (map without_stamp)
        (validateBatch host_2026_later (Some empty_registry) initializeDefaultRules
           [task_without_duration] Tasks)
     = map_sum id (map without_stamp)
        (validateBatch host_2026 (Some empty_registry) initializeDefaultRules
           [task_without_duration] Tasks)"
  using validateBatch_repeatable_up_to_timestamp
          [where h = host_2026 and h' = host_2026_later and rules = initializeDefaultRules
             and dataType = Tasks and records = "[task_without_duration]"
             and ctx = "Some empty_registry",
           OF later_same_builtins later_same_answers later_same_ai]
    later_same_builtins
  by simp

text \<open>
  The claim C9 as it stands fails: the same batch validated one second later
  carries another time stamp.
\<close>

theorem validateBatch_twice_counterexample:
  "validateBatch host_2026_later (Some empty_registry) initializeDefaultRules
     [task_without_duration] Tasks
   \<noteq> validateBatch host_2026 (Some empty_registry) initializeDefaultRules
     [task_without_duration] Tasks"
  by code_simp

lemma errors_initial_results:
  "i < length records \<Longrightarrow> errors (initial_results h dataType records ! i) = []"
  by (simp add: nth_initial_results initial_result_def)

lemma validateBatch_errors:
  assumes "validateBatch h ctx rules records dataType = Inr rs" and "i < length records"
  shows "\<exists>X. performCrossRecordValidation h ctx records dataType = Inr X
             \<and> length X = length records
             \<and> errors (rs ! i)
                 = errors (validateRecord h i rules (records ! i) dataType) @ errors (X ! i)"
proof -
  from validateBatch_returns [OF assms(1)] assms(2) obtain lg where
    c: "\<forall>rs0. cross_checks h ctx records dataType rs0 = Inr (replay lg rs0)"
    and nth: "rs ! i = (validateRecord h i rules (records ! i) dataType)
                      \<lparr>errors := errors (validateRecord h i rules (records ! i) dataType)
                                   @ log_errors lg i,
                       warnings := warnings (validateRecord h i rules (records ! i) dataType)
                                   @ log_warnings lg i\<rparr>"
    by blast
  let ?X = "replay lg (initial_results h dataType records)"
  have "performCrossRecordValidation h ctx records dataType = Inr ?X"
    by (simp add: performCrossRecordValidation_def c)
  moreover have "length ?X = length records"
    by simp
  moreover have "errors (?X ! i) = log_errors lg i"
    using assms(2) by (simp add: errors_replay_nth errors_initial_results)
  ultimately show ?thesis
    using nth by simp
qed

lemma client_reference_step_form:
  "client_reference_step h ctx j x rs
   = (if truthy (client_reference x) \<and> \<not> isValidClientReference h ctx (client_reference x)
      then push_error j client_reference_finding rs else rs)"
  by (simp add: client_reference_step_def client_reference_def client_reference_finding_def Let_def)

lemma no_clients_no_valid_reference:
  "clients reg = [] \<Longrightarrow> \<not> isValidClientReference h (Some reg) v"
  by (simp add: isValidClientReference_def)

lemma sum_pushes_after_client_references:
  "sum_pushes (\<lambda>rs. case throwing (tryEach_idx (preferred_phases_step h) 0 records
                                     (forEach_idx (duration_step h) 0 records rs)) of
                      Inl e \<Rightarrow> Inl e
                    | Inr rs2 \<Rightarrow> Inr (snd (registry_checks h ctx records Tasks rs2)))"
proof -
  have a: "sum_pushes (\<lambda>rs. throwing (tryEach_idx (preferred_phases_step h) 0 records
                                     (forEach_idx (duration_step h) 0 records rs)))"
    by (rule sum_pushes_after [OF pushes_forEach [OF pushes_duration_step]
          sum_pushes_throwing [OF try_pushes_tryEach [OF sum_pushes_preferred_phases_step]]])
  have b: "sum_pushes (\<lambda>rs. Inr (snd (registry_checks h ctx records Tasks rs)))"
    by (rule sum_pushes_Inr) (rule pushes_snd_try, rule try_pushes_registry_checks)
  show ?thesis
    by (rule sum_pushes_bind [OF a b])
qed

lemma cross_checks_tasks:
  "cross_checks h ctx records Tasks rs0
   = (case throwing (tryEach_idx (preferred_phases_step h) 0 records
                      (forEach_idx (duration_step h) 0 records
                         (forEach_idx (client_reference_step h ctx) 0 records
                            (fold mark_duplicate (findDuplicates h records Tasks) rs0)))) of
        Inl e \<Rightarrow> Inl e
      | Inr rs2 \<Rightarrow> Inr (snd (registry_checks h ctx records Tasks rs2)))"
  by (simp add: cross_checks_def task_checks_def Let_def split: sum.splits)

lemma client_reference_error_in_cross:
  assumes nc: "clients reg = []" and i: "i < length records"
    and t: "truthy (client_reference (records ! i))"
    and X: "performCrossRecordValidation h (Some reg) records Tasks = Inr X"
  shows "client_reference_finding \<in> set (errors (X ! i))"
proof -
  let ?rs0 = "initial_results h Tasks records"
  let ?rs1 = "fold mark_duplicate (findDuplicates h records Tasks) ?rs0"
  let ?A = "forEach_idx (client_reference_step h (Some reg)) 0 records ?rs1"
  have i1: "i < length ?rs1" using i by simp
  have e1: "errors (?rs1 ! i) = []"
    using i by (simp add: errors_mark_duplicates errors_initial_results)
  have "errors (?A ! i)
        = errors (?rs1 ! i)
          @ (if 0 \<le> i \<and> i < 0 + length records
                \<and> (truthy (client_reference (records ! (i - 0)))
                    \<and> \<not> isValidClientReference h (Some reg) (client_reference (records ! (i - 0))))
             then [client_reference_finding] else [])"
    by (rule forEach_idx_push_error_nth [OF client_reference_step_form i1])
  then have eA: "errors (?A ! i) = [client_reference_finding]"
    using i t e1 by (simp add: no_clients_no_valid_reference [OF nc])
  have lA: "i < length ?A"
    using i by (simp add: pushes_length [OF pushes_forEach [OF pushes_client_reference_step]])
  from X have "(case throwing (tryEach_idx (preferred_phases_step h) 0 records
                                 (forEach_idx (duration_step h) 0 records ?A)) of
                  Inl e \<Rightarrow> Inl e
                | Inr rs2 \<Rightarrow> Inr (snd (registry_checks h (Some reg) records Tasks rs2))) = Inr X"
    by (simp add: performCrossRecordValidation_def cross_checks_tasks)
  from sum_pushes_errors_grow [OF sum_pushes_after_client_references this lA]
  obtain ys where "errors (X ! i) = errors (?A ! i) @ ys" ..
  then show ?thesis by (simp add: eA)
qed

text \<open>
  Claim C5 (a cross-dataset check is skipped when the collection it needs is
  empty; in particular no ``Referenced client does not exist'' error is emitted
  when the client collection is empty, and a lookup that throws counts as valid).
  The checks in the \<^verbatim>\<open>try\<close> block are skipped on an empty collection
  (\<open>registry_checks_skipped_tasks\<close>, \<open>registry_checks_skipped_clients\<close>) and a
  throwing lookup counts as valid (\<open>lookup_fault_counts_as_valid\<close>). The client
  reference check has no such guard: with an empty client collection, every task
  whose \<^verbatim>\<open>clientId\<close>, \<^verbatim>\<open>ClientID\<close> or \<^verbatim>\<open>client_id\<close> is truthy receives the error,
  whenever \<open>validateBatch\<close> returns.
\<close>

theorem client_reference_error_without_clients:
  assumes "clients reg = []" and "i < length records"
    and "truthy (client_reference (records ! i))"
    and "validateBatch h (Some reg) rules records Tasks = Inr rs"
  shows "client_reference_finding \<in> set (errors (rs ! i))"
proof -
  from validateBatch_errors [OF assms(4) assms(2)] obtain X where
    X: "performCrossRecordValidation h (Some reg) records Tasks = Inr X"
    and e: "errors (rs ! i)
            = errors (validateRecord h i rules (records ! i) Tasks) @ errors (X ! i)"
    by blast
  from client_reference_error_in_cross [OF assms(1) assms(2) assms(3) X] e
  show ?thesis by simp
qed

lemma task_with_client_batch:
  "map_sum id (map (\<lambda>r. map ve_message (errors r)))
     (validateBatch host_2026 (Some empty_registry) initializeDefaultRules
        [task_with_client] Tasks)
   = Inr [[''Referenced client does not exist'']]"
  by code_simp

theorem client_reference_error_without_clients_witness:
  "clients empty_registry = [] \<and> (0 :: nat) < length [task_with_client]
   \<and> truthy (client_reference ([task_with_client] ! 0))
   \<and> (\<exists>rs. validateBatch host_2026 (Some empty_registry) initializeDefaultRules
               [task_with_client] Tasks = Inr rs
            \<and> client_reference_finding \<in> set (errors (rs ! 0)))"
proof -
  have a: "clients empty_registry = []"
    by (simp add: empty_registry_def)
  have b: "(0 :: nat) < length [task_with_client]"
    by simp
  have c: "truthy (client_reference ([task_with_client] ! 0))"
    by (simp add: client_reference_def task_with_client_def field_of_def)
  obtain rs where d: "validateBatch host_2026 (Some empty_registry) initializeDefaultRules
               [task_with_client] Tasks = Inr rs"
    using task_with_client_batch
    by (cases "validateBatch host_2026 (Some empty_registry) initializeDefaultRules
               [task_with_client] Tasks") auto
  from client_reference_error_without_clients [OF a b c d] a b c d show ?thesis
    by blast
qed

lemma lookup_fault_counts_as_valid: "isValidClientReference h None v"
  by (simp add: isValidClientReference_def)

lemma registry_checks_skipped_tasks:
  "workers reg = [] \<or> tasks reg = [] \<Longrightarrow>
   registry_checks h (Some reg) records Tasks rs = (None, rs)"
  by (auto simp: registry_checks_def and_then_def when_do_def)

lemma registry_checks_skipped_clients:
  "clients reg = [] \<or> tasks reg = [] \<Longrightarrow>
   registry_checks h (Some reg) records Clients rs = (None, rs)"
  by (auto simp: registry_checks_def and_then_def when_do_def)

lemma registry_checks_skipped_workers:
  "registry_checks h (Some reg) records Workers rs = (None, rs)"
  by (auto simp: registry_checks_def and_then_def when_do_def)

lemma sum_pushes_length:
  assumes "sum_pushes F" and "F rs = Inr rs'"
  shows "length rs' = length rs"
  using assms by (auto simp: sum_pushes_def)

lemma try_pushes_errors_grow:
  assumes "try_pushes F" and "i < length rs"
  shows "\<exists>ys. errors (snd (F rs) ! i) = errors (rs ! i) @ ys"
  using assms by (auto simp: try_pushes_def errors_replay_nth)

lemma and_then_skip: "and_then f (when_do False g) = f"
  by (intro ext) (simp add: and_then_def when_do_def split: prod.splits option.splits)

lemma and_then_None: "f s = (None, s') \<Longrightarrow> and_then f g s = g s'"
  by (simp add: and_then_def)

lemma registry_checks_tasks:
  assumes "workers reg \<noteq> []" and "tasks reg \<noteq> []"
  shows "registry_checks h (Some reg) records Tasks rs
         = and_then (skill_coverage h (workers reg) records)
             (and_then (tryEach_idx (concurrency_step h (workers reg)) 0 records)
                (phase_saturation h (workers reg) records)) rs"
proof -
  have w: "when_do True = (\<lambda>f. f)"
    by (intro ext) (simp add: when_do_def)
  show ?thesis
    using assms by (simp add: registry_checks_def Let_def w and_then_skip)
qed

lemma skill_step_form:
  "skill_step h workerSkills j x rs
   = (if missing_skills h workerSkills x \<noteq> []
      then push_error j (missing_skills_finding (missing_skills h workerSkills x)) rs else rs)"
  by (simp add: skill_step_def missing_skills_def missing_skills_finding_def Let_def)

lemma sum_pushes_before_registry:
  "sum_pushes (\<lambda>rs0. throwing (tryEach_idx (preferred_phases_step h) 0 records
                      (forEach_idx (duration_step h) 0 records
                         (forEach_idx (client_reference_step h ctx) 0 records
                            (fold mark_duplicate (findDuplicates h records Tasks) rs0)))))"
proof -
  have a: "pushes (\<lambda>rs0. forEach_idx (duration_step h) 0 records
                         (forEach_idx (client_reference_step h ctx) 0 records
                            (fold mark_duplicate (findDuplicates h records Tasks) rs0)))"
    by (rule pushes_comp [OF pushes_comp [OF pushes_fold [OF pushes_mark_duplicate]
            pushes_forEach [OF pushes_client_reference_step]]
          pushes_forEach [OF pushes_duration_step]])
  show ?thesis
    by (rule sum_pushes_after [OF a sum_pushes_throwing [OF try_pushes_tryEach
            [OF sum_pushes_preferred_phases_step]]])
qed

lemma required_react_python:
  assumes "field_of t ''RequiredSkills'' = Arr [Str ''React'', Str ''Python'']"
  shows "missing_skills h [toLowerCase ''React''] t = [''Python'']"
  by (simp add: missing_skills_def required_skills_def assms coalesce_def parseStringList_def
      js_trim_def is_space_def toLowerCase_def lower_char_def)

lemma skill_error_in_cross:
  assumes w: "workers reg = [w]" and ws: "worker_skills h w = Inr [''React'']"
    and ts: "tasks reg \<noteq> []" and i: "i < length records"
    and t: "field_of (records ! i) ''RequiredSkills'' = Arr [Str ''React'', Str ''Python'']"
    and X: "performCrossRecordValidation h (Some reg) records Tasks = Inr X"
  shows "python_finding \<in> set (errors (X ! i))"
proof -
  let ?rs0 = "initial_results h Tasks records"
  let ?pre = "throwing (tryEach_idx (preferred_phases_step h) 0 records
                      (forEach_idx (duration_step h) 0 records
                         (forEach_idx (client_reference_step h (Some reg)) 0 records
                            (fold mark_duplicate (findDuplicates h records Tasks) ?rs0))))"
  from X obtain rs2 where pre: "?pre = Inr rs2"
    and Xeq: "X = snd (registry_checks h (Some reg) records Tasks rs2)"
    by (auto simp: performCrossRecordValidation_def cross_checks_tasks split: sum.splits)
  have l2: "length rs2 = length records"
    using sum_pushes_length [OF sum_pushes_before_registry pre] by simp
  define wsk where "wsk = [toLowerCase ''React'']"
  let ?S = "forEach_idx (skill_step h wsk) 0 records rs2"
  let ?rest = "and_then (tryEach_idx (concurrency_step h (workers reg)) 0 records)
                 (phase_saturation h (workers reg) records)"
  have sc: "skill_coverage h (workers reg) records rs2 = (None, ?S)"
    by (simp add: skill_coverage_def w ws wsk_def)
  have "registry_checks h (Some reg) records Tasks rs2
        = and_then (skill_coverage h (workers reg) records) ?rest rs2"
    by (rule registry_checks_tasks) (simp_all add: w ts)
  also have "\<dots> = ?rest ?S"
    by (rule and_then_None [where f = "skill_coverage h (workers reg) records", OF sc])
  finally have Xr: "X = snd (?rest ?S)"
    unfolding Xeq by simp
  have i2: "i < length rs2" using i l2 by simp
  have ms: "missing_skills h wsk (records ! i) = [''Python'']"
    unfolding wsk_def by (rule required_react_python [OF t])
  have "errors (?S ! i)
        = errors (rs2 ! i)
          @ (if 0 \<le> i \<and> i < 0 + length records
                \<and> missing_skills h wsk (records ! (i - 0)) \<noteq> []
             then [missing_skills_finding (missing_skills h wsk (records ! (i - 0)))]
             else [])"
    by (rule forEach_idx_push_error_nth [OF skill_step_form i2])
  then have eS: "errors (?S ! i) = errors (rs2 ! i) @ [python_finding]"
    using i by (simp add: ms missing_skills_finding_def python_finding_def)
  have lS: "i < length ?S"
    using i2 by (simp add: pushes_length [OF pushes_forEach [OF pushes_skill_step]])
  have tp: "try_pushes ?rest"
    by (rule try_pushes_and_then [OF try_pushes_tryEach [OF sum_pushes_concurrency_step]
          try_pushes_phase_saturation])
  from try_pushes_errors_grow [OF tp lS]
  obtain ys where "errors (snd (?rest ?S) ! i) = errors (?S ! i) @ ys" ..
  then show ?thesis
    by (simp add: Xr eS)
qed

text \<open>
  Claim C6, amended (one worker with skills React; a task requiring React and
  Python receives an error that mentions Python and not React). This holds when
  the task collection of the registry is not empty: whenever \<open>validateBatch\<close>
  returns, the errors of the task contain the finding on \<^verbatim>\<open>RequiredSkills\<close> with
  the message ``Missing worker coverage for skills: Python''.
\<close>

theorem missing_skill_is_reported:
  assumes "workers reg = [w]" and "worker_skills h w = Inr [''React'']"
    and "tasks reg \<noteq> []" and "i < length records"
    and "field_of (records ! i) ''RequiredSkills'' = Arr [Str ''React'', Str ''Python'']"
    and "validateBatch h (Some reg) rules records Tasks = Inr rs"
  shows "mk_finding ''RequiredSkills'' ''Missing worker coverage for skills: Python'' SevError
           (Some [''Add workers with these skills or adjust task requirements''])
         \<in> set (errors (rs ! i))"
proof -
  from validateBatch_errors [OF assms(6) assms(4)] obtain X where
    X: "performCrossRecordValidation h (Some reg) records Tasks = Inr X"
    and e: "errors (rs ! i)
            = errors (validateRecord h i rules (records ! i) Tasks) @ errors (X ! i)"
    by blast
  from skill_error_in_cross [OF assms(1) assms(2) assms(3) assms(4) assms(5) X] e
  show ?thesis by (simp add: python_finding_def)
qed

lemma react_python_batch:
  "map_sum id (map (\<lambda>r. map ve_message (errors r)))
     (validateBatch host_2026 (Some registry_workers_tasks) initializeDefaultRules
        [task_react_python] Tasks)
   = Inr [[''Missing worker coverage for skills: Python'',
           ''MaxConcurrent (1) exceeds number of qualified workers (0)'']]"
  by code_simp

theorem missing_skill_is_reported_witness:
  "workers registry_workers_tasks = [react_worker]
   \<and> worker_skills host_2026 react_worker = Inr [''React'']
   \<and> tasks registry_workers_tasks \<noteq> []
   \<and> (0 :: nat) < length [task_react_python]
   \<and> field_of ([task_react_python] ! 0) ''RequiredSkills'' = Arr [Str ''React'', Str ''Python'']
   \<and> (\<exists>rs. validateBatch host_2026 (Some registry_workers_tasks) initializeDefaultRules
               [task_react_python] Tasks = Inr rs
            \<and> mk_finding ''RequiredSkills'' ''Missing worker coverage for skills: Python''
                  SevError (Some [''Add workers with these skills or adjust task requirements''])
                \<in> set (errors (rs ! 0)))"
proof -
  have a: "workers registry_workers_tasks = [react_worker]"
    and c: "tasks registry_workers_tasks \<noteq> []"
    by (simp_all add: registry_workers_tasks_def)
  have b: "worker_skills host_2026 react_worker = Inr [''React'']"
    by code_simp
  have d: "(0 :: nat) < length [task_react_python]"
    by simp
  have e: "field_of ([task_react_python] ! 0) ''RequiredSkills'' = Arr [Str ''React'', Str ''Python'']"
    by (simp add: task_react_python_def field_of_def)
  obtain rs where f: "validateBatch host_2026 (Some registry_workers_tasks)
               initializeDefaultRules [task_react_python] Tasks = Inr rs"
    using react_python_batch
    by (cases "validateBatch host_2026 (Some registry_workers_tasks) initializeDefaultRules
               [task_react_python] Tasks") auto
  from missing_skill_is_reported [OF a b c d e f] a b c d e f show ?thesis
    by blast
qed

text \<open>
  The claim C6 as it stands fails: the skill check is guarded by the length of
  the registry's task collection too. With the React worker in the registry and
  no task there, the task receives no finding on \<^verbatim>\<open>RequiredSkills\<close>.
\<close>

theorem missing_skill_counterexample:
  "workers registry_workers_only = [react_worker]
   \<and> map_sum id (map (\<lambda>r. filter (\<lambda>e. ve_field e = ''RequiredSkills'') (errors r)))
        (validateBatch host_2026 (Some registry_workers_only) initializeDefaultRules
           [task_react_python] Tasks)
     = Inr [[]]"
  by code_simp

lemma and_then_skip_first: "and_then (when_do False f) g = g"
  by (intro ext) (simp add: and_then_def when_do_def)

lemma registry_checks_clients:
  assumes "clients reg \<noteq> []" and "tasks reg \<noteq> []"
  shows "registry_checks h (Some reg) records Clients rs
         = requested_tasks h (tasks reg) records rs"
  using assms by (simp add: registry_checks_def Let_def and_then_skip_first when_do_def)

lemma requested_tasks_step_form:
  "requested_tasks_step h taskIds j x rs
   = (if unknown_task_ids h taskIds x \<noteq> []
      then push_error j (unknown_tasks_finding (unknown_task_ids h taskIds x)) rs else rs)"
  by (simp add: requested_tasks_step_def Let_def)

lemma cross_checks_clients:
  "cross_checks h ctx records Clients rs0
   = Inr (snd (registry_checks h ctx records Clients
                 (fold mark_duplicate (findDuplicates h records Clients) rs0)))"
  by (simp add: cross_checks_def Let_def)

lemma unknown_tasks_in_cross:
  assumes cs: "clients reg \<noteq> []" and ts: "tasks reg \<noteq> []"
    and ids: "try_map (task_identifier h) (tasks reg) = Inr ids"
    and i: "i < length records"
  shows "\<exists>X. performCrossRecordValidation h (Some reg) records Clients = Inr X
             \<and> errors (X ! i)
                 = (if unknown_task_ids h (filter (\<lambda>t. t \<noteq> []) ids) (records ! i) \<noteq> []
                    then [unknown_tasks_finding
                            (unknown_task_ids h (filter (\<lambda>t. t \<noteq> []) ids) (records ! i))]
                    else [])"
proof -
  let ?rs0 = "initial_results h Clients records"
  let ?rs1 = "fold mark_duplicate (findDuplicates h records Clients) ?rs0"
  define known where "known = filter (\<lambda>t. t \<noteq> []) ids"
  let ?S = "forEach_idx (requested_tasks_step h known) 0 records ?rs1"
  have i1: "i < length ?rs1" using i by simp
  have e1: "errors (?rs1 ! i) = []"
    using i by (simp add: errors_mark_duplicates errors_initial_results)
  have r: "registry_checks h (Some reg) records Clients ?rs1 = (None, ?S)"
    by (simp add: registry_checks_clients [OF cs ts] requested_tasks_def ids known_def)
  have X: "performCrossRecordValidation h (Some reg) records Clients = Inr ?S"
    by (simp add: performCrossRecordValidation_def cross_checks_clients r)
  have "errors (?S ! i)
        = errors (?rs1 ! i)
          @ (if 0 \<le> i \<and> i < 0 + length records
                \<and> unknown_task_ids h known (records ! (i - 0)) \<noteq> []
             then [unknown_tasks_finding (unknown_task_ids h known (records ! (i - 0)))]
             else [])"
    by (rule forEach_idx_push_error_nth [OF requested_tasks_step_form i1])
  then have "errors (?S ! i)
             = (if unknown_task_ids h known (records ! i) \<noteq> []
                then [unknown_tasks_finding (unknown_task_ids h known (records ! i))] else [])"
    using i e1 by simp
  with X show ?thesis
    unfolding known_def by blast
qed

lemma validateBatch_clients_returns:
  "\<exists>rs. validateBatch h ctx rules records Clients = Inr rs"
  by (simp add: validateBatch_def performCrossRecordValidation_def cross_checks_clients)

lemma rule_findings_append:
  "rule_findings h i x sev (a @ b) = rule_findings h i x sev a @ rule_findings h i x sev b"
  by (simp add: rule_findings_def)

lemma rule_findings_Cons:
  "rule_findings h i x sev (r # rs) = rule_findings h i x sev [r] @ rule_findings h i x sev rs"
  using rule_findings_append [of h i x sev "[r]" rs] by simp

lemma apply_rule_findings:
  "apply_rule h i x (es, ws, ss) r
   = (es @ rule_findings h i x SevError [r],
      ws @ rule_findings h i x SevWarning [r],
      ss @ rule_findings h i x SevInfo [r])"
proof (cases "run_condition h i (condition r) (getFieldValue x (rule_field r)) x")
  case None
  then show ?thesis
    by (simp add: apply_rule_def evaluateCondition_def rule_findings_def)
next
  case (Some v)
  then show ?thesis
    by (cases "rule_severity r")
      (simp_all add: apply_rule_def evaluateCondition_def rule_findings_def rule_finding_def)
qed

lemma foldl_apply_rule:
  "foldl (apply_rule h i x) (es, ws, ss) rs
   = (es @ rule_findings h i x SevError rs,
      ws @ rule_findings h i x SevWarning rs,
      ss @ rule_findings h i x SevInfo rs)"
proof (induction rs arbitrary: es ws ss)
  case Nil
  show ?case by (simp add: rule_findings_def)
next
  case (Cons r rs)
  have "foldl (apply_rule h i x) (es, ws, ss) (r # rs)
        = foldl (apply_rule h i x)
            (es @ rule_findings h i x SevError [r],
             ws @ rule_findings h i x SevWarning [r],
             ss @ rule_findings h i x SevInfo [r]) rs"
    by (simp only: foldl_Cons apply_rule_findings)
  also have "\<dots> = (es @ rule_findings h i x SevError (r # rs),
                    ws @ rule_findings h i x SevWarning (r # rs),
                    ss @ rule_findings h i x SevInfo (r # rs))"
    by (simp only: Cons.IH rule_findings_Cons [of h i x _ r rs] append_assoc)
  finally show ?case .
qed

lemma validateRecord_findings:
  "errors (validateRecord h i rules record dataType)
   = rule_findings h i record SevError (rules dataType)
     @ fst (performAIValidation h i record dataType)"
  "warnings (validateRecord h i rules record dataType)
   = rule_findings h i record SevWarning (rules dataType)
     @ fst (snd (performAIValidation h i record dataType))"
  "suggestions (validateRecord h i rules record dataType)
   = rule_findings h i record SevInfo (rules dataType)
     @ snd (snd (performAIValidation h i record dataType))"
  by (simp_all add: validateRecord_def foldl_apply_rule Let_def split: prod.splits)

lemma rule_findings_without_throwing:
  assumes "condition_throws h i record r"
  shows "rule_findings h i record sev (before @ r # after)
         = rule_findings h i record sev (before @ after)"
  using assms by (simp add: rule_findings_def condition_throws_def)

lemma validateRecord_without_throwing:
  assumes "rules dataType = before @ r # after" and "condition_throws h i record r"
  shows "validateRecord h i rules record dataType
         = validateRecord h i (rules (dataType := before @ after)) record dataType"
  using assms
  by (simp add: validateRecord_def condition_throws_def apply_rule_fault)

lemma validateBatch_throws_iff:
  "validateBatch h ctx rules records dataType = Inl e
   \<longleftrightarrow> performCrossRecordValidation h ctx records dataType = Inl e"
  by (simp add: validateBatch_def Let_def split: sum.splits)

lemma validateBatch_nth_merged:
  assumes "validateBatch h ctx rules records dataType = Inr rs" and "j < length records"
  shows "\<exists>X. performCrossRecordValidation h ctx records dataType = Inr X
             \<and> length rs = length records
             \<and> rs ! j = merged (validateRecord h j rules (records ! j) dataType) (X ! j)"
proof -
  from validateBatch_returns [OF assms(1)] obtain lg where
    c: "\<forall>rs0. cross_checks h ctx records dataType rs0 = Inr (replay lg rs0)"
    and len: "length rs = length records"
    by blast
  let ?X = "replay lg (initial_results h dataType records)"
  have X: "performCrossRecordValidation h ctx records dataType = Inr ?X"
    by (simp add: performCrossRecordValidation_def c)
  have rs: "rs = forEach_idx merge_step 0 ?X
                   (map (\<lambda>(i, record). validateRecord h i rules record dataType)
                      (enumerate 0 records))"
    using assms(1) by (simp add: validateBatch_def X)
  have "rs ! j = merged (validateRecord h j rules (records ! j) dataType) (?X ! j)"
    unfolding rs using assms(2) by (simp add: nth_forEach_merge nth_enumerate_eq)
  with X len show ?thesis by blast
qed

text \<open>
  Claim C4 (a rule whose condition throws is treated as passed, the remaining
  rules are still evaluated, and neither the record nor the batch is aborted).
  Let the rule \<open>r\<close> stand anywhere in the rule list of the kind. On every record
  on which the condition of \<open>r\<close> throws, \<open>validateRecord\<close> returns what it returns
  without \<open>r\<close>, and its errors, warnings and suggestions are exactly the findings
  that the rules before and after \<open>r\<close> owe (\<open>rule_findings\<close>: one for each rule
  whose condition returns a falsy value), followed by the findings of the
  language model. \<open>validateBatch\<close> throws with \<open>r\<close> in the list exactly when it
  throws without \<open>r\<close>; and when it returns, it returns one result for each
  record, and the result of every record on which \<open>r\<close> throws is the result of
  \<open>validateRecord\<close> without \<open>r\<close>, merged with the cross-record findings of that
  record.
\<close>

theorem faulting_rule_counts_as_passed:
  assumes "rules dataType = before @ r # after"
  shows "(\<forall>i record. condition_throws h i record r \<longrightarrow>
            validateRecord h i rules record dataType
              = validateRecord h i (rules (dataType := before @ after)) record dataType
            \<and> errors (validateRecord h i rules record dataType)
                = rule_findings h i record SevError (before @ after)
                  @ fst (performAIValidation h i record dataType)
            \<and> warnings (validateRecord h i rules record dataType)
                = rule_findings h i record SevWarning (before @ after)
                  @ fst (snd (performAIValidation h i record dataType))
            \<and> suggestions (validateRecord h i rules record dataType)
                = rule_findings h i record SevInfo (before @ after)
                  @ snd (snd (performAIValidation h i record dataType)))
       \<and> (\<forall>e. validateBatch h ctx rules records dataType = Inl e
                \<longleftrightarrow> validateBatch h ctx (rules (dataType := before @ after)) records dataType
                    = Inl e)
       \<and> (\<forall>rs j. validateBatch h ctx rules records dataType = Inr rs \<and> j < length records
                   \<and> condition_throws h j (records ! j) r \<longrightarrow>
             length rs = length records
             \<and> (\<exists>X. performCrossRecordValidation h ctx records dataType = Inr X
                    \<and> rs ! j
                        = merged (validateRecord h j (rules (dataType := before @ after))
                                    (records ! j) dataType) (X ! j)))"
proof (intro conjI allI impI)
  fix i x
  assume t: "condition_throws h i x r"
  show "validateRecord h i rules x dataType
        = validateRecord h i (rules (dataType := before @ after)) x dataType"
    by (rule validateRecord_without_throwing
          [where rules = rules and dataType = dataType, OF assms t])
  show "errors (validateRecord h i rules x dataType)
        = rule_findings h i x SevError (before @ after)
          @ fst (performAIValidation h i x dataType)"
    by (simp only: validateRecord_findings assms rule_findings_without_throwing [OF t])
  show "warnings (validateRecord h i rules x dataType)
        = rule_findings h i x SevWarning (before @ after)
          @ fst (snd (performAIValidation h i x dataType))"
    by (simp only: validateRecord_findings assms rule_findings_without_throwing [OF t])
  show "suggestions (validateRecord h i rules x dataType)
        = rule_findings h i x SevInfo (before @ after)
          @ snd (snd (performAIValidation h i x dataType))"
    by (simp only: validateRecord_findings assms rule_findings_without_throwing [OF t])
next
  fix e
  show "validateBatch h ctx rules records dataType = Inl e
        \<longleftrightarrow> validateBatch h ctx (rules (dataType := before @ after)) records dataType = Inl e"
    by (simp only: validateBatch_throws_iff)
next
  fix rs j
  assume a: "validateBatch h ctx rules records dataType = Inr rs \<and> j < length records
             \<and> condition_throws h j (records ! j) r"
  from validateBatch_nth_merged [of h ctx rules records dataType rs j] a
  obtain X where X: "performCrossRecordValidation h ctx records dataType = Inr X"
    and len: "length rs = length records"
    and nth: "rs ! j = merged (validateRecord h j rules (records ! j) dataType) (X ! j)"
    by blast
  show "length rs = length records" by (rule len)
  have "validateRecord h j rules (records ! j) dataType
        = validateRecord h j (rules (dataType := before @ after)) (records ! j) dataType"
    using a
    by (intro validateRecord_without_throwing [where rules = rules and dataType = dataType,
          OF assms]) simp
  with X nth
  show "\<exists>X. performCrossRecordValidation h ctx records dataType = Inr X
            \<and> rs ! j = merged (validateRecord h j (rules (dataType := before @ after))
                                 (records ! j) dataType) (X ! j)"
    by simp
qed

lemma numeric_name_client_facts:
  "initializeDefaultRules Clients = [] @ hd client_rules # tl client_rules"
  "condition_throws host_2026 0 numeric_name_client (hd client_rules)"
  "rule_findings host_2026 0 numeric_name_client SevError ([] @ tl client_rules)
     @ fst (performAIValidation host_2026 0 numeric_name_client Clients)
   = [mk_finding ''PriorityLevel'' ''Priority level must be between 1 and 5'' SevError None]"
  "rule_findings host_2026 0 numeric_name_client SevWarning ([] @ tl client_rules)
     @ fst (snd (performAIValidation host_2026 0 numeric_name_client Clients)) = []"
  "rule_findings host_2026 0 numeric_name_client SevInfo ([] @ tl client_rules)
     @ snd (snd (performAIValidation host_2026 0 numeric_name_client Clients)) = []"
  "(0 :: nat) < length [numeric_name_client]"
  "[numeric_name_client] ! 0 = numeric_name_client"
  by code_simp+

theorem faulting_rule_counts_as_passed_witness:
  "initializeDefaultRules Clients = [] @ hd client_rules # tl client_rules
   \<and> condition_throws host_2026 0 numeric_name_client (hd client_rules)
   \<and> validateRecord host_2026 0 initializeDefaultRules numeric_name_client Clients
       = validateRecord host_2026 0 (initializeDefaultRules (Clients := [] @ tl client_rules))
           numeric_name_client Clients
   \<and> errors (validateRecord host_2026 0 initializeDefaultRules numeric_name_client Clients)
       = [mk_finding ''PriorityLevel'' ''Priority level must be between 1 and 5'' SevError None]
   \<and> warnings (validateRecord host_2026 0 initializeDefaultRules numeric_name_client Clients) = []
   \<and> suggestions (validateRecord host_2026 0 initializeDefaultRules numeric_name_client Clients)
       = []
   \<and> (\<exists>rs X. validateBatch host_2026 (Some empty_registry) initializeDefaultRules
                 [numeric_name_client] Clients = Inr rs
              \<and> performCrossRecordValidation host_2026 (Some empty_registry)
                    [numeric_name_client] Clients = Inr X
              \<and> length rs = length [numeric_name_client]
              \<and> rs ! 0
                  = merged (validateRecord host_2026 0
                              (initializeDefaultRules (Clients := [] @ tl client_rules))
                              numeric_name_client Clients) (X ! 0))"
proof -
  note r = numeric_name_client_facts(1)
  note t = numeric_name_client_facts(2)
  note T = faulting_rule_counts_as_passed
             [where rules = initializeDefaultRules and dataType = Clients and h = host_2026
                and ctx = "Some empty_registry" and records = "[numeric_name_client]", OF r]
  from T t have a:
    "validateRecord host_2026 0 initializeDefaultRules numeric_name_client Clients
     = validateRecord host_2026 0 (initializeDefaultRules (Clients := [] @ tl client_rules))
         numeric_name_client Clients"
    and e: "errors (validateRecord host_2026 0 initializeDefaultRules numeric_name_client Clients)
            = rule_findings host_2026 0 numeric_name_client SevError ([] @ tl client_rules)
              @ fst (performAIValidation host_2026 0 numeric_name_client Clients)"
    and w: "warnings (validateRecord host_2026 0 initializeDefaultRules numeric_name_client Clients)
            = rule_findings host_2026 0 numeric_name_client SevWarning ([] @ tl client_rules)
              @ fst (snd (performAIValidation host_2026 0 numeric_name_client Clients))"
    and s: "suggestions
              (validateRecord host_2026 0 initializeDefaultRules numeric_name_client Clients)
            = rule_findings host_2026 0 numeric_name_client SevInfo ([] @ tl client_rules)
              @ snd (snd (performAIValidation host_2026 0 numeric_name_client Clients))"
    by blast+
  obtain rs where rs: "validateBatch host_2026 (Some empty_registry) initializeDefaultRules
                         [numeric_name_client] Clients = Inr rs"
    using validateBatch_clients_returns by blast
  have t0: "condition_throws host_2026 0 ([numeric_name_client] ! 0) (hd client_rules)"
    by (simp only: numeric_name_client_facts(7) t)
  from T rs numeric_name_client_facts(6) t0 have b:
    "length rs = length [numeric_name_client]
     \<and> (\<exists>X. performCrossRecordValidation host_2026 (Some empty_registry)
                [numeric_name_client] Clients = Inr X
            \<and> rs ! 0
                = merged (validateRecord host_2026 0
                            (initializeDefaultRules (Clients := [] @ tl client_rules))
                            ([numeric_name_client] ! 0) Clients) (X ! 0))"
    by blast
  from r t a e w s rs b show ?thesis
    unfolding numeric_name_client_facts(3,4,5,7) by blast
qed

lemma task_identifier_text:
  "\<not> nullish t \<Longrightarrow> task_identifier h t = Inr (toLowerCase (task_id_text h t))"
  by (cases t)
    (simp_all add: task_identifier_def props3_or_def props2_def task_id_text_def opt_prop_def
      coalesce_def)

lemma task_identifier_throws:
  "nullish t \<Longrightarrow> task_identifier h t = Inl TypeError"
  by (cases t) (simp_all add: task_identifier_def props3_or_def props2_def)

lemma try_map_task_identifier:
  "(\<forall>t \<in> set ts. \<not> nullish t) \<Longrightarrow>
   try_map (task_identifier h) ts = Inr (map (\<lambda>t. toLowerCase (task_id_text h t)) ts)"
  by (induction ts) (simp_all add: task_identifier_text)

lemma try_map_task_identifier_throws:
  "\<not> (\<forall>t \<in> set ts. \<not> nullish t) \<Longrightarrow> \<exists>e. try_map (task_identifier h) ts = Inl e"
proof (induction ts)
  case Nil
  then show ?case by simp
next
  case (Cons t ts)
  show ?case
  proof (cases "nullish t")
    case True
    then show ?thesis by (simp add: task_identifier_throws)
  next
    case False
    with Cons.prems have "\<not> (\<forall>t \<in> set ts. \<not> nullish t)" by simp
    from Cons.IH [OF this] obtain e where "try_map (task_identifier h) ts = Inl e" ..
    with False show ?thesis by (simp add: task_identifier_text)
  qed
qed

lemma parseStringList_nonempty: "x \<in> set (parseStringList h v) \<Longrightarrow> x \<noteq> []"
  by (cases v) (auto simp: parseStringList_def)

lemma toLowerCase_empty [simp]: "toLowerCase x = [] \<longleftrightarrow> x = []"
  by (simp add: toLowerCase_def)

lemma unknown_task_ids_absent:
  assumes "\<not> nullish (field_of c ''RequestedTaskIDs'')"
  shows "unknown_task_ids h
           (filter (\<lambda>t. t \<noteq> []) (map (\<lambda>t. toLowerCase (task_id_text h t)) ts)) c
         = absent_task_ids h ts (parseStringList h (field_of c ''RequestedTaskIDs''))"
proof -
  have r: "requested_task_ids h c = parseStringList h (field_of c ''RequestedTaskIDs'')"
    using assms by (simp add: requested_task_ids_def coalesce_def)
  show ?thesis
    unfolding unknown_task_ids_def absent_task_ids_def r
  proof (rule filter_cong [OF refl])
    fix x
    assume "x \<in> set (parseStringList h (field_of c ''RequestedTaskIDs''))"
    then have "x \<noteq> []"
      by (rule parseStringList_nonempty)
    define y where "y = toLowerCase x"
    have y: "y \<noteq> []"
      using \<open>x \<noteq> []\<close> by (simp add: y_def)
    have "(y \<notin> set (filter (\<lambda>t. t \<noteq> []) (map (\<lambda>t. toLowerCase (task_id_text h t)) ts)))
          = (\<forall>t \<in> set ts. toLowerCase (task_id_text h t) \<noteq> y)"
      using y unfolding set_filter set_map by blast
    then show "(toLowerCase x
                  \<notin> set (filter (\<lambda>t. t \<noteq> []) (map (\<lambda>t. toLowerCase (task_id_text h t)) ts)))
               = (\<forall>t \<in> set ts. toLowerCase (task_id_text h t) \<noteq> toLowerCase x)"
      unfolding y_def .
  qed
qed

lemma no_requested_tasks_check:
  assumes "clients reg = [] \<or> tasks reg = []
           \<or> (\<exists>e. try_map (task_identifier h) (tasks reg) = Inl e)"
    and i: "i < length records"
  shows "\<exists>X. performCrossRecordValidation h (Some reg) records Clients = Inr X
             \<and> errors (X ! i) = []"
proof -
  let ?rs0 = "initial_results h Clients records"
  let ?rs1 = "fold mark_duplicate (findDuplicates h records Clients) ?rs0"
  have e1: "errors (?rs1 ! i) = []"
    using i by (simp add: errors_mark_duplicates errors_initial_results)
  have "snd (registry_checks h (Some reg) records Clients ?rs1) = ?rs1"
    using assms(1)
    by (auto simp: registry_checks_def Let_def and_then_skip_first when_do_def requested_tasks_def)
  then have "performCrossRecordValidation h (Some reg) records Clients = Inr ?rs1"
    by (simp add: performCrossRecordValidation_def cross_checks_clients)
  with e1 show ?thesis by blast
qed

lemma requested_tasks_in_cross:
  assumes i: "i < length records"
    and f: "\<not> nullish (field_of (records ! i) ''RequestedTaskIDs'')"
  shows "\<exists>X. performCrossRecordValidation h (Some reg) records Clients = Inr X
             \<and> errors (X ! i)
                 = (if clients reg \<noteq> [] \<and> tasks reg \<noteq> [] \<and> (\<forall>t \<in> set (tasks reg). \<not> nullish t)
                       \<and> absent_task_ids h (tasks reg)
                            (parseStringList h (field_of (records ! i) ''RequestedTaskIDs''))
                           \<noteq> []
                    then [unknown_tasks_finding
                            (absent_task_ids h (tasks reg)
                               (parseStringList h (field_of (records ! i) ''RequestedTaskIDs'')))]
                    else [])"
proof (cases "clients reg \<noteq> [] \<and> tasks reg \<noteq> [] \<and> (\<forall>t \<in> set (tasks reg). \<not> nullish t)")
  case True
  then have cs: "clients reg \<noteq> []" and ts: "tasks reg \<noteq> []"
    and n: "\<forall>t \<in> set (tasks reg). \<not> nullish t"
    by simp_all
  from unknown_tasks_in_cross [OF cs ts try_map_task_identifier [OF n] i]
  show ?thesis
    unfolding unknown_task_ids_absent [OF f] using True by simp
next
  case False
  then have "clients reg = [] \<or> tasks reg = []
             \<or> (\<exists>e. try_map (task_identifier h) (tasks reg) = Inl e)"
    using try_map_task_identifier_throws [of "tasks reg" h] by blast
  from no_requested_tasks_check [OF this i] False show ?thesis
    by auto
qed

text \<open>
  Claim C7, amended (a client whose \<^verbatim>\<open>RequestedTaskIDs\<close> list names tasks that are
  absent from the task collection of the registry receives exactly one error,
  which lists all of them). Whenever \<open>validateBatch\<close> returns on a clients batch,
  the errors of a client with a \<^verbatim>\<open>RequestedTaskIDs\<close> field are those of
  \<open>validateRecord\<close>, followed by one single finding if the client collection and
  the task collection of the registry are both non-empty, no entry of the task
  collection is \<^verbatim>\<open>null\<close> or \<^verbatim>\<open>undefined\<close>, and some identifier of the parsed list
  is, letter case apart, the identifier of no task (\<open>absent_task_ids\<close>); the
  message of that finding lists all these identifiers in the order of the list,
  joined by a comma and a space. In every other case nothing is added.
\<close>

theorem unknown_task_ids_reported_once:
  assumes "validateBatch h (Some reg) rules records Clients = Inr rs"
    and "i < length records"
    and "\<not> nullish (field_of (records ! i) ''RequestedTaskIDs'')"
    and "missing = absent_task_ids h (tasks reg)
                     (parseStringList h (field_of (records ! i) ''RequestedTaskIDs''))"
  shows "errors (rs ! i)
         = errors (validateRecord h i rules (records ! i) Clients)
           @ (if clients reg \<noteq> [] \<and> tasks reg \<noteq> [] \<and> (\<forall>t \<in> set (tasks reg). \<not> nullish t)
                 \<and> missing \<noteq> []
              then [\<lparr>ve_field = ''RequestedTaskIDs'',
                     ve_message = ''Unknown TaskIDs: '' @ js_join '', '' missing,
                     ve_severity = SevError,
                     ve_suggestions = Some [''Correct TaskIDs or add missing tasks'']\<rparr>]
              else [])"
proof -
  from validateBatch_errors [OF assms(1) assms(2)] obtain X where
    X: "performCrossRecordValidation h (Some reg) records Clients = Inr X"
    and e: "errors (rs ! i)
            = errors (validateRecord h i rules (records ! i) Clients) @ errors (X ! i)"
    by blast
  from requested_tasks_in_cross [OF assms(2) assms(3), of h reg] X
  have "errors (X ! i)
        = (if clients reg \<noteq> [] \<and> tasks reg \<noteq> [] \<and> (\<forall>t \<in> set (tasks reg). \<not> nullish t)
              \<and> missing \<noteq> []
           then [unknown_tasks_finding missing] else [])"
    unfolding assms(4) by auto
  with e show ?thesis
    by (simp add: unknown_tasks_finding_def mk_finding_def)
qed

lemma client_requesting_facts:
  "validateBatch host_2026 (Some registry_clients_tasks) initializeDefaultRules
     [client_requesting] Clients
   = Inr [merged (validateRecord host_2026 0 initializeDefaultRules client_requesting Clients)
            \<lparr>isValid = True,
             errors = [\<lparr>ve_field = ''RequestedTaskIDs'',
                        ve_message = ''Unknown TaskIDs: T7, t9'', ve_severity = SevError,
                        ve_suggestions = Some [''Correct TaskIDs or add missing tasks'']\<rparr>],
             warnings = [], suggestions = [], score = Fin 100, recordId = Str ''0'',
             recordType = Clients, qualityScore = Fin 100,
             validatedAt = ''2026-01-01T00:00:00.000Z''\<rparr>]"
  "(0 :: nat) < length [client_requesting]"
  "\<not> nullish (field_of ([client_requesting] ! 0) ''RequestedTaskIDs'')"
  "[''T7'', ''t9'']
   = absent_task_ids host_2026 (tasks registry_clients_tasks)
       (parseStringList host_2026 (field_of ([client_requesting] ! 0) ''RequestedTaskIDs''))"
  "clients registry_clients_tasks \<noteq> [] \<and> tasks registry_clients_tasks \<noteq> []
   \<and> (\<forall>t \<in> set (tasks registry_clients_tasks). \<not> nullish t) \<and> [''T7'', ''t9''] \<noteq> []"
  "errors (validateRecord host_2026 0 initializeDefaultRules ([client_requesting] ! 0) Clients)
   = []"
  "''Unknown TaskIDs: '' @ js_join '', '' [''T7'', ''t9''] = ''Unknown TaskIDs: T7, t9''"
  by code_simp+

theorem unknown_task_ids_reported_once_witness:
  "clients registry_clients_tasks = [Obj client_requesting]
   \<and> tasks registry_clients_tasks = [Obj [(''TaskID'', Str ''T1'')]]
   \<and> field_of ([client_requesting] ! 0) ''RequestedTaskIDs'' = Str ''T1, T7,t9''
   \<and> absent_task_ids host_2026 (tasks registry_clients_tasks)
         (parseStringList host_2026 (field_of ([client_requesting] ! 0) ''RequestedTaskIDs''))
       = [''T7'', ''t9'']
   \<and> (\<exists>rs. validateBatch host_2026 (Some registry_clients_tasks) initializeDefaultRules
               [client_requesting] Clients = Inr rs
            \<and> errors (rs ! 0)
                = [\<lparr>ve_field = ''RequestedTaskIDs'', ve_message = ''Unknown TaskIDs: T7, t9'',
                    ve_severity = SevError,
                    ve_suggestions = Some [''Correct TaskIDs or add missing tasks'']\<rparr>])"
proof -
  have c: "clients registry_clients_tasks = [Obj client_requesting]"
    and t: "tasks registry_clients_tasks = [Obj [(''TaskID'', Str ''T1'')]]"
    by (simp_all add: registry_clients_tasks_def)
  have f: "field_of ([client_requesting] ! 0) ''RequestedTaskIDs'' = Str ''T1, T7,t9''"
    by (simp add: client_requesting_def field_of_def)
  note e = unknown_task_ids_reported_once
             [OF client_requesting_facts(1) client_requesting_facts(2)
                 client_requesting_facts(3) client_requesting_facts(4)]
  have "errors ([merged (validateRecord host_2026 0 initializeDefaultRules client_requesting
                           Clients)
                   \<lparr>isValid = True,
                    errors = [\<lparr>ve_field = ''RequestedTaskIDs'',
                               ve_message = ''Unknown TaskIDs: T7, t9'', ve_severity = SevError,
                               ve_suggestions = Some [''Correct TaskIDs or add missing tasks'']\<rparr>],
                    warnings = [], suggestions = [], score = Fin 100, recordId = Str ''0'',
                    recordType = Clients, qualityScore = Fin 100,
                    validatedAt = ''2026-01-01T00:00:00.000Z''\<rparr>] ! 0)
        = [\<lparr>ve_field = ''RequestedTaskIDs'', ve_message = ''Unknown TaskIDs: T7, t9'',
            ve_severity = SevError,
            ve_suggestions = Some [''Correct TaskIDs or add missing tasks'']\<rparr>]"
    using e client_requesting_facts(5)
    unfolding client_requesting_facts(6) client_requesting_facts(7) by simp
  with c t f client_requesting_facts(1) client_requesting_facts(4) [symmetric]
  show ?thesis by blast
qed

text \<open>
  The claim C7 as it stands fails: the check also requires a non-empty client
  collection in the registry. With the task T1 in the registry and no client
  there, a client of the batch that requests the tasks T1, T7 and t9 receives no
  error at all, although T7 and t9 are absent from the task collection.
\<close>

theorem unknown_task_ids_counterexample:
  "clients registry_tasks_only = []
   \<and> tasks registry_tasks_only = [Obj [(''TaskID'', Str ''T1'')]]
   \<and> field_of client_requesting ''RequestedTaskIDs'' = Str ''T1, T7,t9''
   \<and> parseStringList host_2026 (field_of client_requesting ''RequestedTaskIDs'')
       = [''T1'', ''T7'', ''t9'']
   \<and> absent_task_ids host_2026 (tasks registry_tasks_only) [''T1'', ''T7'', ''t9'']
       = [''T7'', ''t9'']
   \<and> map_sum id (map errors)
         (validateBatch host_2026 (Some registry_tasks_only) initializeDefaultRules
            [client_requesting] Clients)
       = Inr [[]]"
  by code_simp

end
